theory Spec2Isabelle
  imports Main
begin

section \<open>Contribution aggregation and identity resolution of the props action\<close>

text \<open>
  The embedding follows \<^verbatim>\<open>getContributorsList\<close> and its two helpers
  \<^verbatim>\<open>skipUser\<close> and \<^verbatim>\<open>contributorAlreadyPresent\<close> (the module that imports
  \<^verbatim>\<open>github.js\<close> and \<^verbatim>\<open>getWPOrgData\<close>), and \<^verbatim>\<open>escapeForGql\<close> of
  \<^verbatim>\<open>src/utils.js\<close>. The two older drafts of \<^verbatim>\<open>run\<close> in \<^verbatim>\<open>src/index.js\<close> have the
  same aggregation and rendering text; they differ in that their helpers are declared
  \<^verbatim>\<open>async\<close> and are tested without \<^verbatim>\<open>await\<close>, the batched answer shadows the profile
  table, and there is no early return for an empty contributor list.

  Strings are \<^typ>\<open>string\<close>. The awaited calls (the pull-request query, the batched
  profile request, the directory lookup) are taken to resolve: their answers are
  parameters of the model, and every request issued is recorded in a trace. The answers
  are well-formed as the spec's data model has them: every author carries a login, only a
  commit's author may lack the linked account.

  The profile table is the source's \<^verbatim>\<open>userData\<close>, an Array (\<^verbatim>\<open>const userData = []\<close>)
  used as a dictionary. It is modelled as the map of its own enumerable properties
  together with its prototype, with what an Array does at the two keys that are not
  ordinary: a write under \<^verbatim>\<open>length\<close> throws a RangeError (the value is an object, not a
  length), and a write under \<^verbatim>\<open>__proto__\<close> replaces the prototype and creates no
  property. A read of a key that is not an own property finds \<^verbatim>\<open>length\<close>,
  \<^verbatim>\<open>__proto__\<close> and whatever the prototype chain carries; the names that
  \<^verbatim>\<open>Array.prototype\<close> and \<^verbatim>\<open>Object.prototype\<close> carry depend on the runtime and are
  parameters of the model. The fields of a profile object are values, never \<^verbatim>\<open>null\<close>,
  as the types of the records say. An exception ends the run; the module-level state
  stays as it was when the exception was thrown.
\<close>

subsection \<open>The answers of the collaborators\<close>

text \<open>The \<^verbatim>\<open>user { databaseId login name email }\<close> object of the platform.\<close>

record gh_user =
  databaseId :: int
  login :: string
  user_name :: string
  user_email :: string

text \<open>\<^verbatim>\<open>commit.commit.author\<close>: the linked account (\<^verbatim>\<open>null\<close> when there is none), and
  the name and email written in the commit.\<close>

record commit_author =
  user :: "gh_user option"
  author_name :: string
  author_email :: string

text \<open>A linked issue: its author's login and the logins of its comments' authors.\<close>

record linked_issue =
  issue_author :: string
  issue_comments :: "string list"

text \<open>\<^verbatim>\<open>contributorData\<close>: the four node lists; reviews and comments are given by
  their authors' logins.\<close>

record contributor_data =
  commits :: "commit_author list"
  reviews :: "string list"
  comments :: "string list"
  closingIssuesReferences :: "linked_issue list"

text \<open>One value of the directory's answer: the literal \<^verbatim>\<open>false\<close>, or a record with a
  \<^verbatim>\<open>slug\<close>.\<close>

datatype wporg_entry = NotLinked | Slug string

text \<open>The surroundings of one run: the answer to the pull-request query, the answers to the
  batched profile request (\<^verbatim>\<open>Object.values\<close> of it, in order) and to the directory
  lookup, each as a function of the list of logins sent, and the property names that
  \<^verbatim>\<open>Array.prototype\<close> and \<^verbatim>\<open>Object.prototype\<close> carry in the runtime (other than
  \<^verbatim>\<open>__proto__\<close>).\<close>

record services =
  getContributorData :: contributor_data
  getUsersData :: "string list \<Rightarrow> gh_user list"
  getWPOrgData :: "string list \<Rightarrow> (string \<rightharpoonup> wporg_entry)"
  arrayPrototypeNames :: "string list"
  objectPrototypeNames :: "string list"

datatype request =
  ContributorDataQuery
  | UsersDataQuery "string list"
  | WPOrgLookup "string list"

subsection \<open>The module-level state\<close>

datatype contributorType = committers | reviewers | commenters | reporters

definition contributorTypes :: "contributorType list" where
  "contributorTypes = [committers, reviewers, commenters, reporters]"

fun typeName :: "contributorType \<Rightarrow> string" where
  "typeName committers = ''committers''"
| "typeName reviewers = ''reviewers''"
| "typeName commenters = ''commenters''"
| "typeName reporters = ''reporters''"

text \<open>An entry of \<^verbatim>\<open>userData\<close>: the account object, or the \<^verbatim>\<open>{name, email}\<close> pair of
  a commit without a linked account; \<^verbatim>\<open>dotOrg\<close> is an own property only once the
  directory merge has set it.\<close>

datatype profile_fields = Account gh_user | NameEmail string string

record profile =
  info :: profile_fields
  dotOrg :: "string option"

text \<open>A JavaScript \<^verbatim>\<open>Set\<close> of strings keeps its members in insertion order and holds
  none twice: a list, with \<^verbatim>\<open>add\<close> appending only a new member.\<close>

definition Set_add :: "string \<Rightarrow> string list \<Rightarrow> string list" where
  "Set_add x xs = (if x \<in> set xs then xs else xs @ [x])"

text \<open>A \<^verbatim>\<open>Set\<close> has a \<^verbatim>\<open>size\<close> and no \<^verbatim>\<open>length\<close>: reading \<^verbatim>\<open>length\<close> gives
  \<^verbatim>\<open>undefined\<close>, here \<^term>\<open>None\<close>.\<close>

definition Set_length :: "string list \<Rightarrow> nat option" where
  "Set_length xs = None"

text \<open>The prototype of \<^verbatim>\<open>userData\<close>: \<^verbatim>\<open>Array.prototype\<close>, or the profile object that
  was written under \<^verbatim>\<open>__proto__\<close>.\<close>

datatype prototype = ArrayPrototype | ProfilePrototype profile_fields

text \<open>The module-level state: the own enumerable properties of \<^verbatim>\<open>userData\<close>, its
  prototype, and the four sets.\<close>

record state =
  userData :: "string \<rightharpoonup> profile"
  userDataProto :: prototype
  contributors :: "contributorType \<Rightarrow> string list"

text \<open>The state when the module has just been loaded.\<close>

definition initial :: state where
  "initial = \<lparr>userData = Map.empty, userDataProto = ArrayPrototype, contributors = (\<lambda>t. [])\<rparr>"

text \<open>A piece of the run that may throw gives the exception, if any, and the state it
  leaves. A loop stops at the first exception.\<close>

datatype error = TypeError | RangeError

type_synonym step_result = "error option \<times> state"

fun forEach :: "('a \<Rightarrow> state \<Rightarrow> step_result) \<Rightarrow> 'a list \<Rightarrow> state \<Rightarrow> step_result" where
  "forEach step [] s = (None, s)"
| "forEach step (x # xs) s =
     (case step x s of
        (Some e, s') \<Rightarrow> (Some e, s')
      | (None, s') \<Rightarrow> forEach step xs s')"

subsection \<open>The skip and dedup policy\<close>

text \<open>\<^verbatim>\<open>contributorAlreadyPresent\<close> returns \<^verbatim>\<open>true\<close> from inside the loop and falls off
  the end otherwise: the result is \<^verbatim>\<open>true\<close> or \<^verbatim>\<open>undefined\<close> (\<^term>\<open>None\<close>).\<close>

fun contributorAlreadyPresent_loop ::
  "(contributorType \<Rightarrow> string list) \<Rightarrow> contributorType list \<Rightarrow> string \<Rightarrow> bool option" where
  "contributorAlreadyPresent_loop cs [] username = None"
| "contributorAlreadyPresent_loop cs (contributorType # rest) username =
     (if username \<in> set (cs contributorType) then Some True
      else contributorAlreadyPresent_loop cs rest username)"

definition contributorAlreadyPresent ::
  "(contributorType \<Rightarrow> string list) \<Rightarrow> string \<Rightarrow> bool option" where
  "contributorAlreadyPresent cs username =
     contributorAlreadyPresent_loop cs contributorTypes username"

text \<open>\<^verbatim>\<open>!\<close> on a value that is a boolean or \<^verbatim>\<open>undefined\<close>.\<close>

fun js_not :: "bool option \<Rightarrow> bool" where
  "js_not None = True"
| "js_not (Some b) = (\<not> b)"

fun indexOf :: "'a list \<Rightarrow> 'a \<Rightarrow> int" where
  "indexOf [] x = - 1"
| "indexOf (y # ys) x =
     (if y = x then 0 else (let i = indexOf ys x in if i = - 1 then - 1 else i + 1))"

definition skippedUsers :: "string list" where
  "skippedUsers = [''github-actions'']"

definition skipUser :: "(contributorType \<Rightarrow> string list) \<Rightarrow> string \<Rightarrow> bool" where
  "skipUser cs username =
     (if - 1 = indexOf skippedUsers username \<and> js_not (contributorAlreadyPresent cs username)
      then False else True)"

subsection \<open>Aggregation: commits, reviews, comments, linked issues\<close>

definition addContributor :: "contributorType \<Rightarrow> string \<Rightarrow> state \<Rightarrow> state" where
  "addContributor t k s = s\<lparr>contributors := (contributors s)(t := Set_add k (contributors s t))\<rparr>"

text \<open>\<^verbatim>\<open>userData[k] = object\<close> on the Array: under \<^verbatim>\<open>length\<close> the assignment throws
  a RangeError, under \<^verbatim>\<open>__proto__\<close> it makes the object the prototype, under any other
  key it creates or overwrites the own property.\<close>

definition setUserData :: "string \<Rightarrow> profile_fields \<Rightarrow> state \<Rightarrow> step_result" where
  "setUserData k f s =
     (if k = ''length'' then (Some RangeError, s)
      else if k = ''__proto__'' then (None, s\<lparr>userDataProto := ProfilePrototype f\<rparr>)
      else (None, s\<lparr>userData := (userData s)(k \<mapsto> \<lparr>info = f, dotOrg = None\<rparr>)\<rparr>))"

text \<open>The body of the loop over \<^verbatim>\<open>contributorData.commits.nodes\<close>: the key is added
  to the set before the profile is written.\<close>

definition processCommit :: "commit_author \<Rightarrow> state \<Rightarrow> step_result" where
  "processCommit c s =
     (case user c of
        None \<Rightarrow>
          setUserData (author_email c) (NameEmail (author_name c) (author_email c))
            (addContributor committers (author_email c) s)
      | Some u \<Rightarrow>
          if skipUser (contributors s) (login u) then (None, s)
          else setUserData (login u) (Account u) (addContributor committers (login u) s))"

definition processCommits :: "commit_author list \<Rightarrow> state \<Rightarrow> step_result" where
  "processCommits cs s = forEach processCommit cs s"

text \<open>\<^verbatim>\<open>nodes.filter(r => !skipUser(r.author.login)).forEach(r => set.add(...))\<close>: the
  whole list is filtered against the state before the first member is added.\<close>

definition filterThenAdd :: "contributorType \<Rightarrow> string list \<Rightarrow> state \<Rightarrow> state" where
  "filterThenAdd t logins s =
     fold (addContributor t) (filter (\<lambda>l. \<not> skipUser (contributors s) l) logins) s"

definition processReviews :: "string list \<Rightarrow> state \<Rightarrow> state" where
  "processReviews rs s = filterThenAdd reviewers rs s"

definition processComments :: "string list \<Rightarrow> state \<Rightarrow> state" where
  "processComments cs s = filterThenAdd commenters cs s"

definition processIssueComment :: "string \<Rightarrow> state \<Rightarrow> state" where
  "processIssueComment l s =
     (if skipUser (contributors s) l then s else addContributor commenters l s)"

definition processLinkedIssue :: "linked_issue \<Rightarrow> state \<Rightarrow> state" where
  "processLinkedIssue i s =
     fold processIssueComment (issue_comments i)
       (if \<not> skipUser (contributors s) (issue_author i)
        then addContributor reporters (issue_author i) s else s)"

definition processLinkedIssues :: "linked_issue list \<Rightarrow> state \<Rightarrow> state" where
  "processLinkedIssues is s = fold processLinkedIssue is s"

text \<open>The aggregation pass: the four channels in the source's order. Only the loop over
  the commits writes profiles and can throw.\<close>

definition aggregate :: "contributor_data \<Rightarrow> state \<Rightarrow> step_result" where
  "aggregate d s =
     (case processCommits (commits d) s of
        (Some e, s') \<Rightarrow> (Some e, s')
      | (None, s') \<Rightarrow>
          (None,
           processLinkedIssues (closingIssuesReferences d)
             (processComments (comments d)
               (processReviews (reviews d) s'))))"

subsection \<open>Profile backfill and directory merge\<close>

definition usersToFetch :: "state \<Rightarrow> string list" where
  "usersToFetch s =
     contributors s reviewers @ contributors s commenters @ contributors s reporters"

text \<open>\<^verbatim>\<open>Object.values(answer).forEach(user => userData[user.login] = user)\<close>.\<close>

definition storeUsers :: "gh_user list \<Rightarrow> state \<Rightarrow> step_result" where
  "storeUsers us s = forEach (\<lambda>u. setUserData (login u) (Account u)) us s"

definition backfill :: "services \<Rightarrow> state \<Rightarrow> step_result \<times> request list" where
  "backfill sv s =
     (if length (usersToFetch s) > 0
      then (storeUsers (getUsersData sv (usersToFetch s)) s, [UsersDataQuery (usersToFetch s)])
      else ((None, s), []))"

text \<open>\<^verbatim>\<open>githubUsers\<close>: the members of every set, in the order of the keys of
  \<^verbatim>\<open>contributors\<close>.\<close>

definition githubUsers :: "state \<Rightarrow> string list" where
  "githubUsers s = concat (map (contributors s) contributorTypes)"

text \<open>The directory merge: every key of \<^verbatim>\<open>userData\<close> that the answer has as an own
  property with a value other than \<^verbatim>\<open>false\<close> gets \<^verbatim>\<open>dotOrg\<close>.\<close>

definition mergeWPOrg :: "(string \<rightharpoonup> wporg_entry) \<Rightarrow> state \<Rightarrow> state" where
  "mergeWPOrg w s =
     s\<lparr>userData := (\<lambda>k. case userData s k of
          None \<Rightarrow> None
        | Some p \<Rightarrow> (case w k of
             Some (Slug sl) \<Rightarrow> Some (p\<lparr>dotOrg := Some sl\<rparr>)
           | _ \<Rightarrow> Some p))\<rparr>"

subsection \<open>Rendering\<close>

definition toUpperCase_char :: "char \<Rightarrow> char" where
  "toUpperCase_char c =
     (if 97 \<le> (of_char c :: nat) \<and> (of_char c :: nat) \<le> 122
      then char_of ((of_char c :: nat) - 32) else c)"

text \<open>\<^verbatim>\<open>priority.replace(/^./, char => char.toUpperCase())\<close>.\<close>

fun capitalize :: "string \<Rightarrow> string" where
  "capitalize [] = []"
| "capitalize (c # cs) = toUpperCase_char c # cs"

definition header :: "contributorType \<Rightarrow> string" where
  "header priority = ''# '' @ capitalize (typeName priority) @ [CHR 0x0A]"

definition trailer :: "string \<Rightarrow> string \<Rightarrow> string" where
  "trailer username slug =
     ''Co-authored-by: '' @ username @ '' <'' @ slug @ ''@git.wordpress.org>''"

text \<open>\<^verbatim>\<open>Array.prototype.join\<close> on strings.\<close>

fun join :: "string \<Rightarrow> string list \<Rightarrow> string" where
  "join sep [] = []"
| "join sep [x] = x"
| "join sep (x # y # ys) = x @ sep @ join sep (y # ys)"

text \<open>What \<^verbatim>\<open>userData[username]\<close> reads: the profile stored as an own property;
  otherwise some other value when the key is \<^verbatim>\<open>length\<close> (the Array's own length),
  \<^verbatim>\<open>__proto__\<close> (the prototype) or a name found along the prototype chain (a method of
  \<^verbatim>\<open>Array.prototype\<close> or \<^verbatim>\<open>Object.prototype\<close>, or a field of the profile object that is
  the prototype); otherwise \<^verbatim>\<open>undefined\<close>. None of the other values is \<^verbatim>\<open>null\<close> or
  \<^verbatim>\<open>undefined\<close>, and none has an own property \<^verbatim>\<open>dotOrg\<close>.\<close>

datatype lookup = Undefined | OwnProfile profile | OtherValue

fun fieldNames :: "profile_fields \<Rightarrow> string list" where
  "fieldNames (Account u) = [''databaseId'', ''login'', ''name'', ''email'']"
| "fieldNames (NameEmail n e) = [''name'', ''email'']"

fun inheritedNames :: "services \<Rightarrow> prototype \<Rightarrow> string list" where
  "inheritedNames sv ArrayPrototype = arrayPrototypeNames sv @ objectPrototypeNames sv"
| "inheritedNames sv (ProfilePrototype f) = fieldNames f @ objectPrototypeNames sv"

definition readUserData :: "services \<Rightarrow> state \<Rightarrow> string \<Rightarrow> lookup" where
  "readUserData sv s k =
     (case userData s k of
        Some p \<Rightarrow> OwnProfile p
      | None \<Rightarrow>
          if k = ''length'' \<or> k = ''__proto__'' \<or> k \<in> set (inheritedNames sv (userDataProto s))
          then OtherValue else Undefined)"

text \<open>The callback of the inner \<^verbatim>\<open>map\<close>, run over the members in order with the list
  \<^verbatim>\<open>unconnectedUsers\<close> threaded through. Destructuring \<^verbatim>\<open>userData[username]\<close> throws
  a TypeError when the read gives \<^verbatim>\<open>undefined\<close>. A member whose value has no own
  \<^verbatim>\<open>dotOrg\<close> is pushed to the list and gives \<^verbatim>\<open>undefined\<close> (\<^term>\<open>None\<close>).\<close>

fun renderEntries ::
  "services \<Rightarrow> state \<Rightarrow> string list \<Rightarrow> string list \<Rightarrow>
   error + (string option list \<times> string list)" where
  "renderEntries sv s [] unconnectedUsers = Inr ([], unconnectedUsers)"
| "renderEntries sv s (username # rest) unconnectedUsers =
     (case readUserData sv s username of
        Undefined \<Rightarrow> Inl TypeError
      | OtherValue \<Rightarrow>
          (case renderEntries sv s rest (unconnectedUsers @ [username]) of
             Inl e \<Rightarrow> Inl e
           | Inr (es, unc) \<Rightarrow> Inr (None # es, unc))
      | OwnProfile p \<Rightarrow>
          (case dotOrg p of
             None \<Rightarrow>
               (case renderEntries sv s rest (unconnectedUsers @ [username]) of
                  Inl e \<Rightarrow> Inl e
                | Inr (es, unc) \<Rightarrow> Inr (None # es, unc))
           | Some slug \<Rightarrow>
               (case renderEntries sv s rest unconnectedUsers of
                  Inl e \<Rightarrow> Inl e
                | Inr (es, unc) \<Rightarrow> Inr (Some (trailer username slug) # es, unc))))"

text \<open>\<^verbatim>\<open>join\<close> writes \<^verbatim>\<open>undefined\<close> as the empty string.\<close>

fun entryText :: "string option \<Rightarrow> string" where
  "entryText None = []"
| "entryText (Some line) = line"

text \<open>What the outer \<^verbatim>\<open>map\<close> gives for one category: the empty array of the guard, or
  the header followed by the joined entries. The outer \<^verbatim>\<open>join\<close> writes an empty array
  as the empty string.\<close>

datatype section_value = EmptyArray | SectionText string

fun sectionText :: "section_value \<Rightarrow> string" where
  "sectionText EmptyArray = []"
| "sectionText (SectionText t) = t"

definition renderSection ::
  "services \<Rightarrow> state \<Rightarrow> contributorType \<Rightarrow> string list \<Rightarrow>
   error + (section_value \<times> string list)" where
  "renderSection sv s priority unconnectedUsers =
     (if Set_length (contributors s priority) = Some 0 then Inr (EmptyArray, unconnectedUsers)
      else (case renderEntries sv s (contributors s priority) unconnectedUsers of
              Inl e \<Rightarrow> Inl e
            | Inr (es, unc) \<Rightarrow>
                Inr (SectionText (header priority @ join [CHR 0x0A] (map entryText es)), unc)))"

fun renderSections ::
  "services \<Rightarrow> state \<Rightarrow> contributorType list \<Rightarrow> string list \<Rightarrow>
   error + (section_value list \<times> string list)" where
  "renderSections sv s [] unconnectedUsers = Inr ([], unconnectedUsers)"
| "renderSections sv s (priority # rest) unconnectedUsers =
     (case renderSection sv s priority unconnectedUsers of
        Inl e \<Rightarrow> Inl e
      | Inr (sec, unc) \<Rightarrow>
          (case renderSections sv s rest unc of
             Inl e \<Rightarrow> Inl e
           | Inr (secs, unc') \<Rightarrow> Inr (sec # secs, unc')))"

text \<open>The rendered text together with the final \<^verbatim>\<open>unconnectedUsers\<close> (which the source
  computes and drops).\<close>

definition render :: "services \<Rightarrow> state \<Rightarrow> error + (string \<times> string list)" where
  "render sv s =
     (case renderSections sv s contributorTypes [] of
        Inl e \<Rightarrow> Inl e
      | Inr (secs, unc) \<Rightarrow> Inr (join [CHR 0x0A, CHR 0x0A] (map sectionText secs), unc))"

subsection \<open>The pipeline\<close>

text \<open>What one call leaves behind: the value returned (\<^term>\<open>None\<close> for \<^verbatim>\<open>undefined\<close>) or
  the exception thrown, the module-level state, and the requests issued in order.\<close>

record outcome =
  returned :: "error + string option"
  final :: state
  requests :: "request list"

definition getContributorsList :: "services \<Rightarrow> state \<Rightarrow> outcome" where
  "getContributorsList sv s =
     (case aggregate (getContributorData sv) s of
        (Some e, s1) \<Rightarrow> \<lparr>returned = Inl e, final = s1, requests = [ContributorDataQuery]\<rparr>
      | (None, s1) \<Rightarrow>
          (case backfill sv s1 of
             ((Some e, s2), asked) \<Rightarrow>
               \<lparr>returned = Inl e, final = s2, requests = ContributorDataQuery # asked\<rparr>
           | ((None, s2), asked) \<Rightarrow>
               if length (githubUsers s2) = 0
               then \<lparr>returned = Inr None, final = s2, requests = ContributorDataQuery # asked\<rparr>
               else
                 (let s3 = mergeWPOrg (getWPOrgData sv (githubUsers s2)) s2
                  in \<lparr>returned =
                        (case render sv s3 of Inl e \<Rightarrow> Inl e | Inr (t, unc) \<Rightarrow> Inr (Some t)),
                      final = s3,
                      requests =
                        ContributorDataQuery # asked @ [WPOrgLookup (githubUsers s2)]\<rparr>)))"

subsection \<open>The sanitizer\<close>

text \<open>\<^verbatim>\<open>String.prototype.replace\<close> with a global one-character class and a replacement
  string.\<close>

fun replaceAll :: "(char \<Rightarrow> bool) \<Rightarrow> string \<Rightarrow> string \<Rightarrow> string" where
  "replaceAll cls r [] = []"
| "replaceAll cls r (c # cs) = (if cls c then r @ replaceAll cls r cs else c # replaceAll cls r cs)"

text \<open>\<^verbatim>\<open>'_' + string.replace( /[./-]/g, '_' )\<close>: the value the returned promise resolves
  to.\<close>

definition escapeForGql :: "string \<Rightarrow> string" where
  "escapeForGql string = ''_'' @ replaceAll (\<lambda>c. c \<in> set ''./-'') ''_'' string"

subsection \<open>The dedup policy as the spec words it\<close>

text \<open>
  The spec: a contributor is created the first time its key is met while the channels are
  scanned in the fixed order (commits, reviews, comments, then per linked issue its
  reporter and its comments), its category is assigned once and never changed, and an
  excluded login is never recorded. \<open>events\<close> lists the pairs of category and key in
  that order: a commit without a linked account gives its email, a login on the exclusion
  list gives nothing. \<open>firstCategory\<close> is the category of the first pair with the key.
\<close>

definition loginEvents :: "contributorType \<Rightarrow> string list \<Rightarrow> (contributorType \<times> string) list" where
  "loginEvents t ls = map (Pair t) (filter (\<lambda>l. l \<notin> set skippedUsers) ls)"

definition commitEvents :: "commit_author \<Rightarrow> (contributorType \<times> string) list" where
  "commitEvents c =
     (case user c of
        None \<Rightarrow> [(committers, author_email c)]
      | Some u \<Rightarrow> loginEvents committers [login u])"

definition issueEvents :: "linked_issue \<Rightarrow> (contributorType \<times> string) list" where
  "issueEvents i =
     loginEvents reporters [issue_author i] @ loginEvents commenters (issue_comments i)"

definition events :: "contributor_data \<Rightarrow> (contributorType \<times> string) list" where
  "events d =
     concat (map commitEvents (commits d))
     @ loginEvents reviewers (reviews d)
     @ loginEvents commenters (comments d)
     @ concat (map issueEvents (closingIssuesReferences d))"

definition firstOf :: "(contributorType \<times> string) list \<Rightarrow> string \<Rightarrow> contributorType option" where
  "firstOf es k = map_option fst (find (\<lambda>e. snd e = k) es)"

definition firstCategory :: "contributor_data \<Rightarrow> string \<Rightarrow> contributorType option" where
  "firstCategory d k = firstOf (events d) k"

text \<open>The logins of the commit authors with a linked account, and the commits without one
  that carry a given email.\<close>

definition linkedCommitLogins :: "contributor_data \<Rightarrow> string list" where
  "linkedCommitLogins d =
     concat (map (\<lambda>c. case user c of None \<Rightarrow> [] | Some u \<Rightarrow> [login u]) (commits d))"

definition unlinkedCommits :: "contributor_data \<Rightarrow> string \<Rightarrow> commit_author list" where
  "unlinkedCommits d e = filter (\<lambda>c. user c = None \<and> author_email c = e) (commits d)"

text \<open>The sanitizer's policy as the spec words it: every character outside letters and
  digits becomes an underscore, and an underscore is put in front.\<close>

definition isLetterOrDigit :: "char \<Rightarrow> bool" where
  "isLetterOrDigit c =
     (let n = (of_char c :: nat)
      in (48 \<le> n \<and> n \<le> 57) \<or> (65 \<le> n \<and> n \<le> 90) \<or> (97 \<le> n \<and> n \<le> 122))"

definition sanitizerPolicy :: "string \<Rightarrow> string" where
  "sanitizerPolicy s = CHR ''_'' # map (\<lambda>c. if isLetterOrDigit c then c else CHR ''_'') s"

text \<open>The lines of a rendered text (\<^verbatim>\<open>text.split('\n')\<close>), and the lines that are a
  trailer for a given login: those that start with \<^verbatim>\<open>Co-authored-by: \<close>, the login and
  \<^verbatim>\<open> <\<close>.\<close>

fun splitLines :: "string \<Rightarrow> string list" where
  "splitLines [] = [[]]"
| "splitLines (c # cs) =
     (if c = CHR 0x0A then [] # splitLines cs
      else (case splitLines cs of [] \<Rightarrow> [[c]] | l # ls \<Rightarrow> (c # l) # ls))"

definition isTrailerFor :: "string \<Rightarrow> string \<Rightarrow> bool" where
  "isTrailerFor username line =
     (take (length (''Co-authored-by: '' @ username @ '' <'')) line
        = ''Co-authored-by: '' @ username @ '' <'')"

subsection \<open>Notions used in the proofs\<close>

definition present :: "state \<Rightarrow> string \<Rightarrow> bool" where
  "present s k = (\<exists>t. k \<in> set (contributors s t))"

text \<open>A state transformer tracks a list of events on the states satisfying \<open>Q\<close> when it
  keeps \<open>Q\<close> and adds to each category exactly the keys that were in no category before
  and whose first event in the list has that category.\<close>

definition tracks ::
  "(state \<Rightarrow> bool) \<Rightarrow> (state \<Rightarrow> state) \<Rightarrow> (contributorType \<times> string) list \<Rightarrow> bool" where
  "tracks Q f es =
     (\<forall>s. Q s \<longrightarrow> Q (f s) \<and>
        (\<forall>t k. (k \<in> set (contributors (f s) t)) =
                (k \<in> set (contributors s t) \<or> (\<not> present s k \<and> firstOf es k = Some t))))"

definition onlyCommitters :: "state \<Rightarrow> bool" where
  "onlyCommitters s = (\<forall>t. t \<noteq> committers \<longrightarrow> contributors s t = [])"

text \<open>A later state keeps an earlier one when every member of every set and every key
  of the profile table is still there.\<close>

definition keeps :: "state \<Rightarrow> state \<Rightarrow> bool" where
  "keeps s s' =
     ((\<forall>t. set (contributors s t) \<subseteq> set (contributors s' t))
      \<and> dom (userData s) \<subseteq> dom (userData s'))"

text \<open>A run up to the end of the backfill: the exception thrown so far, if any, and the
  state; and the states in which no profile carries \<^verbatim>\<open>dotOrg\<close> yet.\<close>

definition gathered :: "services \<Rightarrow> state \<Rightarrow> step_result" where
  "gathered sv s =
     (case aggregate (getContributorData sv) s of
        (Some e, s1) \<Rightarrow> (Some e, s1)
      | (None, s1) \<Rightarrow> fst (backfill sv s1))"

definition noDotOrg :: "state \<Rightarrow> bool" where
  "noDotOrg s = (\<forall>k p. userData s k = Some p \<longrightarrow> dotOrg p = None)"

subsection \<open>Concrete inputs\<close>

definition mkUser :: "int \<Rightarrow> string \<Rightarrow> gh_user" where
  "mkUser i l = \<lparr>databaseId = i, login = l, user_name = l, user_email = l @ ''@example.com''\<rparr>"

definition linkedCommit :: "gh_user \<Rightarrow> commit_author" where
  "linkedCommit u = \<lparr>user = Some u, author_name = user_name u, author_email = user_email u\<rparr>"

definition unlinkedCommit :: "string \<Rightarrow> string \<Rightarrow> commit_author" where
  "unlinkedCommit n e = \<lparr>user = None, author_name = n, author_email = e\<rparr>"

text \<open>A pull request with a linked and an unlinked commit, two reviews, two comments and
  one linked issue.\<close>

definition exampleData :: contributor_data where
  "exampleData =
     \<lparr>commits = [linkedCommit (mkUser 1 ''alice''), unlinkedCommit ''Bob'' ''bob@example.com''],
      reviews = [''alice'', ''carol''],
      comments = [''carol'', ''dave''],
      closingIssuesReferences =
        [\<lparr>issue_author = ''erin'', issue_comments = [''erin'', ''frank'', ''github-actions'']\<rparr>]\<rparr>"

text \<open>The excluded login as the linked author of a commit and as a reviewer.\<close>

definition botData :: contributor_data where
  "botData =
     \<lparr>commits = [linkedCommit (mkUser 2 ''github-actions'')],
      reviews = [''github-actions''],
      comments = [],
      closingIssuesReferences = []\<rparr>"

text \<open>The excluded login in every channel, with further commits.\<close>

definition botEverywhere :: "commit_author list \<Rightarrow> contributor_data" where
  "botEverywhere extra =
     \<lparr>commits = linkedCommit (mkUser 2 ''github-actions'') # extra,
      reviews = [''github-actions''],
      comments = [''github-actions''],
      closingIssuesReferences =
        [\<lparr>issue_author = ''github-actions'', issue_comments = [''github-actions'']\<rparr>]\<rparr>"

text \<open>Two commits without a linked account under one email, with different names.\<close>

definition repeatedEmailData :: contributor_data where
  "repeatedEmailData =
     \<lparr>commits = [unlinkedCommit ''Bob'' ''bob@example.com'',
                 linkedCommit (mkUser 1 ''alice''),
                 unlinkedCommit ''Robert'' ''bob@example.com''],
      reviews = [],
      comments = [],
      closingIssuesReferences = []\<rparr>"

text \<open>Two commits without a linked account under the email \<^verbatim>\<open>length\<close>.\<close>

definition lengthEmailData :: contributor_data where
  "lengthEmailData =
     \<lparr>commits = [unlinkedCommit ''Al'' ''length'', unlinkedCommit ''Alan'' ''length''],
      reviews = [],
      comments = [],
      closingIssuesReferences = []\<rparr>"

text \<open>One review, by the login \<^verbatim>\<open>length\<close>.\<close>

definition lengthReviewData :: contributor_data where
  "lengthReviewData =
     \<lparr>commits = [], reviews = [''length''], comments = [], closingIssuesReferences = []\<rparr>"

text \<open>One review, by the login \<^verbatim>\<open>constructor\<close>.\<close>

definition constructorReviewData :: contributor_data where
  "constructorReviewData =
     \<lparr>commits = [], reviews = [''constructor''], comments = [], closingIssuesReferences = []\<rparr>"

text \<open>No events at all; one commit by \<open>alice\<close>; one review by \<open>bob\<close>; one commit by
  \<open>bob\<close>; and the spec's scenario: a commit by \<open>alice\<close>, a review by \<open>bob\<close>, a comment
  by \<open>alice\<close>.\<close>

definition emptyData :: contributor_data where
  "emptyData = \<lparr>commits = [], reviews = [], comments = [], closingIssuesReferences = []\<rparr>"

definition commitOnlyData :: contributor_data where
  "commitOnlyData =
     \<lparr>commits = [linkedCommit (mkUser 1 ''alice'')], reviews = [], comments = [],
      closingIssuesReferences = []\<rparr>"

definition reviewOnlyData :: contributor_data where
  "reviewOnlyData =
     \<lparr>commits = [], reviews = [''bob''], comments = [], closingIssuesReferences = []\<rparr>"

definition bobCommitData :: contributor_data where
  "bobCommitData =
     \<lparr>commits = [linkedCommit (mkUser 7 ''bob'')], reviews = [], comments = [],
      closingIssuesReferences = []\<rparr>"

definition aliceBobData :: contributor_data where
  "aliceBobData =
     \<lparr>commits = [linkedCommit (mkUser 1 ''alice'')], reviews = [''bob''], comments = [''alice''],
      closingIssuesReferences = []\<rparr>"

text \<open>Collaborators that answer the batched profile request with one record per login
  asked, and the directory lookup from a table, for the logins asked.\<close>

definition answerUsers :: "string list \<Rightarrow> gh_user list" where
  "answerUsers asked = map (mkUser 7) asked"

definition answerDirectory ::
  "(string \<times> wporg_entry) list \<Rightarrow> string list \<Rightarrow> (string \<rightharpoonup> wporg_entry)" where
  "answerDirectory table asked = map_of table |` set asked"

text \<open>Some of the property names of \<^verbatim>\<open>Array.prototype\<close> and \<^verbatim>\<open>Object.prototype\<close>.\<close>

definition exampleArrayNames :: "string list" where
  "exampleArrayNames =
     [''constructor'', ''at'', ''concat'', ''filter'', ''forEach'', ''join'', ''keys'', ''map'',
      ''pop'', ''push'', ''values'']"

definition exampleObjectNames :: "string list" where
  "exampleObjectNames = [''constructor'', ''hasOwnProperty'', ''toString'', ''valueOf'']"

definition exampleServices :: "contributor_data \<Rightarrow> (string \<times> wporg_entry) list \<Rightarrow> services" where
  "exampleServices d table =
     \<lparr>getContributorData = d, getUsersData = answerUsers, getWPOrgData = answerDirectory table,
      arrayPrototypeNames = exampleArrayNames, objectPrototypeNames = exampleObjectNames\<rparr>"

text \<open>Collaborators whose batched profile request answers with no record, and an empty
  directory.\<close>

definition unansweredServices :: "contributor_data \<Rightarrow> services" where
  "unansweredServices d = (exampleServices d [])\<lparr>getUsersData := (\<lambda>asked. [])\<rparr>"

definition aliceBobTable :: "(string \<times> wporg_entry) list" where
  "aliceBobTable = [(''alice'', Slug ''alice-wp''), (''bob'', NotLinked)]"

section \<open>Properties of the embedding\<close>

subsection \<open>The headers and the skip policy\<close>

lemma header_values:
  "header committers = ''# Committers'' @ [CHR 0x0A]"
  "header reviewers = ''# Reviewers'' @ [CHR 0x0A]"
  "header commenters = ''# Commenters'' @ [CHR 0x0A]"
  "header reporters = ''# Reporters'' @ [CHR 0x0A]"
  by code_simp+

lemma indexOf_ge: "- 1 \<le> indexOf xs x"
  by (induction xs) (auto simp: Let_def)

lemma indexOf_minus_one: "(indexOf xs x = - 1) = (x \<notin> set xs)"
proof (induction xs)
  case Nil
  then show ?case by simp
next
  case (Cons y ys)
  have "indexOf ys x + 1 \<noteq> - 1" using indexOf_ge [of ys x] by arith
  with Cons show ?case by (auto simp: Let_def)
qed

lemma contributorType_cases: "t = committers \<or> t = reviewers \<or> t = commenters \<or> t = reporters"
  by (cases t) auto

lemma contributorAlreadyPresent_eq:
  "contributorAlreadyPresent cs k = (if \<exists>t. k \<in> set (cs t) then Some True else None)"
proof -
  have "(\<exists>t. k \<in> set (cs t)) =
    (k \<in> set (cs committers) \<or> k \<in> set (cs reviewers) \<or> k \<in> set (cs commenters) \<or> k \<in> set (cs reporters))"
    using contributorType_cases by metis
  then show ?thesis
    by (simp add: contributorAlreadyPresent_def contributorTypes_def)
qed

lemma skipUser_iff:
  "skipUser cs k = (k \<in> set skippedUsers \<or> (\<exists>t. k \<in> set (cs t)))"
proof -
  have "(- 1 = indexOf skippedUsers k) = (k \<notin> set skippedUsers)"
    using indexOf_minus_one [of skippedUsers k] by auto
  then show ?thesis
    by (simp add: skipUser_def contributorAlreadyPresent_eq)
qed

lemma skipUser_present: "skipUser (contributors s) k = (k \<in> set skippedUsers \<or> present s k)"
  by (simp add: skipUser_iff present_def)

subsection \<open>Adding a contributor, storing a profile\<close>

lemma contributors_addContributor:
  "contributors (addContributor t k s) t' =
     (if t' = t then Set_add k (contributors s t) else contributors s t')"
  by (simp add: addContributor_def)

lemma userData_addContributor: "userData (addContributor t k s) = userData s"
  by (simp add: addContributor_def)

lemma contributors_setUserData: "contributors (snd (setUserData k f s)) = contributors s"
  by (simp add: setUserData_def)

lemma userData_setUserData:
  "userData (snd (setUserData k f s)) =
     (if k = ''length'' \<or> k = ''__proto__'' then userData s
      else (userData s)(k \<mapsto> \<lparr>info = f, dotOrg = None\<rparr>))"
  by (simp add: setUserData_def)

lemma thrown_setUserData:
  "fst (setUserData k f s) = (if k = ''length'' then Some RangeError else None)"
  by (simp add: setUserData_def)

text \<open>A loop that ran to its end is the fold of its steps; a loop that was cut short by
  an exception is the fold over the items up to the one that threw.\<close>

lemma forEach_fold:
  "fst (forEach step xs s) = None \<Longrightarrow>
     snd (forEach step xs s) = fold (\<lambda>x s. snd (step x s)) xs s"
proof (induction xs arbitrary: s)
  case Nil
  then show ?case by simp
next
  case (Cons x xs)
  obtain e s' where st: "step x s = (e, s')" by (cases "step x s")
  with Cons.prems have e: "e = None" by (cases e) auto
  with st Cons.prems have "fst (forEach step xs s') = None" by simp
  from Cons.IH [OF this] st e show ?case by simp
qed

lemma forEach_take:
  "\<exists>n. snd (forEach step xs s) = fold (\<lambda>x s. snd (step x s)) (take n xs) s"
proof (induction xs arbitrary: s)
  case Nil
  then show ?case by simp
next
  case (Cons x xs)
  obtain e s' where st: "step x s = (e, s')" by (cases "step x s")
  show ?case
  proof (cases e)
    case None
    from Cons [of s'] obtain n where
      "snd (forEach step xs s') = fold (\<lambda>x s. snd (step x s)) (take n xs) s'" by blast
    with st None have
      "snd (forEach step (x # xs) s) = fold (\<lambda>x s. snd (step x s)) (take (Suc n) (x # xs)) s"
      by simp
    then show ?thesis by blast
  next
    case (Some err)
    with st have
      "snd (forEach step (x # xs) s) = fold (\<lambda>x s. snd (step x s)) (take (Suc 0) (x # xs)) s"
      by simp
    then show ?thesis by blast
  qed
qed

lemma forEach_completes:
  "(\<And>x s. x \<in> set xs \<Longrightarrow> fst (step x s) = None) \<Longrightarrow> fst (forEach step xs s) = None"
proof (induction xs arbitrary: s)
  case Nil
  then show ?case by simp
next
  case (Cons x xs)
  obtain e s' where st: "step x s = (e, s')" by (cases "step x s")
  with Cons.prems [of x s] have e: "e = None" by simp
  have "fst (forEach step xs s') = None"
    by (rule Cons.IH) (simp add: Cons.prems)
  with st e show ?case by simp
qed

lemma set_Set_add: "set (Set_add k xs) = insert k (set xs)"
  by (auto simp: Set_add_def)

lemma member_addContributor:
  "(k' \<in> set (contributors (addContributor t k s) t')) =
     (k' \<in> set (contributors s t') \<or> (t' = t \<and> k' = k))"
  by (auto simp: contributors_addContributor set_Set_add)

subsection \<open>The aggregation pass adds each key under its first category\<close>

lemma firstOf_Nil: "firstOf [] k = None"
  by (simp add: firstOf_def)

lemma firstOf_Cons:
  "firstOf ((t, k') # es) k = (if k' = k then Some t else firstOf es k)"
  by (simp add: firstOf_def)

lemma firstOf_append:
  "firstOf (es1 @ es2) k = (case firstOf es1 k of Some t \<Rightarrow> Some t | None \<Rightarrow> firstOf es2 k)"
  by (induction es1) (auto simp: firstOf_Nil firstOf_Cons)

lemma firstOf_loginEvents:
  "firstOf (loginEvents t ls) k = (if k \<in> set ls \<and> k \<notin> set skippedUsers then Some t else None)"
  by (induction ls) (auto simp: loginEvents_def firstOf_Nil firstOf_Cons)

lemma tracks_id: "tracks Q (\<lambda>s. s) []"
  by (simp add: tracks_def firstOf_Nil)

lemma tracks_comp:
  assumes f: "tracks Q f es1" and g: "tracks Q g es2"
  shows "tracks Q (\<lambda>s. g (f s)) (es1 @ es2)"
  unfolding tracks_def
proof (intro allI impI conjI)
  fix s assume Q: "Q s"
  from f Q have Qf: "Q (f s)"
    and mf: "\<And>t k. (k \<in> set (contributors (f s) t)) =
       (k \<in> set (contributors s t) \<or> (\<not> present s k \<and> firstOf es1 k = Some t))"
    by (auto simp: tracks_def)
  from g Qf have Qg: "Q (g (f s))"
    and mg: "\<And>t k. (k \<in> set (contributors (g (f s)) t)) =
       (k \<in> set (contributors (f s) t) \<or> (\<not> present (f s) k \<and> firstOf es2 k = Some t))"
    by (auto simp: tracks_def)
  show "Q (g (f s))" by (rule Qg)
  fix t k
  have pf: "present (f s) k = (present s k \<or> firstOf es1 k \<noteq> None)"
    unfolding present_def using mf by (auto simp: present_def)
  show "(k \<in> set (contributors (g (f s)) t)) =
       (k \<in> set (contributors s t) \<or> (\<not> present s k \<and> firstOf (es1 @ es2) k = Some t))"
    unfolding mg mf pf firstOf_append by (cases "firstOf es1 k") auto
qed

lemma tracks_fold:
  assumes "\<And>x. x \<in> set xs \<Longrightarrow> tracks Q (step x) (ev x)"
  shows "tracks Q (fold step xs) (concat (map ev xs))"
  using assms
proof (induction xs rule: rev_induct)
  case Nil
  then show ?case using tracks_id [of Q] by (simp add: id_def)
next
  case (snoc x xs)
  have a: "tracks Q (fold step xs) (concat (map ev xs))" using snoc by simp
  have b: "tracks Q (step x) (ev x)" using snoc by simp
  from tracks_comp [OF a b] show ?case by simp
qed

lemma tracks_addIfNew:
  "tracks (\<lambda>s. True) (\<lambda>s. if skipUser (contributors s) l then s else addContributor t l s)
     (loginEvents t [l])"
  by (auto simp: tracks_def skipUser_present member_addContributor firstOf_loginEvents present_def)

lemma tracks_processIssueComment:
  "tracks (\<lambda>s. True) (processIssueComment l) (loginEvents commenters [l])"
  using tracks_addIfNew [of l commenters] by (simp add: processIssueComment_def [abs_def])

lemma loginEvents_concat: "concat (map (\<lambda>l. loginEvents t [l]) ls) = loginEvents t ls"
  by (induction ls) (auto simp: loginEvents_def)

lemma tracks_issueComments:
  "tracks (\<lambda>s. True) (fold processIssueComment ls) (loginEvents commenters ls)"
  using tracks_fold [of ls "\<lambda>s. True" processIssueComment "\<lambda>l. loginEvents commenters [l]"]
  by (simp add: tracks_processIssueComment loginEvents_concat)

lemma tracks_processLinkedIssue:
  "tracks (\<lambda>s. True) (processLinkedIssue i) (issueEvents i)"
proof -
  have a: "tracks (\<lambda>s. True)
      (\<lambda>s. if skipUser (contributors s) (issue_author i) then s
            else addContributor reporters (issue_author i) s)
      (loginEvents reporters [issue_author i])"
    by (rule tracks_addIfNew)
  have eq: "processLinkedIssue i =
      (\<lambda>s. fold processIssueComment (issue_comments i)
         (if skipUser (contributors s) (issue_author i) then s
          else addContributor reporters (issue_author i) s))"
    by (rule ext) (simp add: processLinkedIssue_def)
  show ?thesis
    unfolding eq issueEvents_def by (rule tracks_comp [OF a tracks_issueComments])
qed

lemma tracks_processLinkedIssues:
  "tracks (\<lambda>s. True) (processLinkedIssues is) (concat (map issueEvents is))"
  unfolding processLinkedIssues_def [abs_def]
  by (rule tracks_fold) (rule tracks_processLinkedIssue)

lemma member_fold_addContributor:
  "(k \<in> set (contributors (fold (addContributor t) xs s) t')) =
     (k \<in> set (contributors s t') \<or> (t' = t \<and> k \<in> set xs))"
  by (induction xs arbitrary: s) (auto simp: member_addContributor)

lemma tracks_filterThenAdd:
  "tracks (\<lambda>s. True) (filterThenAdd t ls) (loginEvents t ls)"
  by (auto simp: tracks_def filterThenAdd_def member_fold_addContributor skipUser_present
        firstOf_loginEvents present_def)

lemma onlyCommitters_member:
  "onlyCommitters s \<Longrightarrow> k \<in> set (contributors s t) \<Longrightarrow> t = committers"
  unfolding onlyCommitters_def by (metis empty_iff empty_set)

text \<open>The sets after one commit do not depend on whether the write of the profile threw:
  the key is added first.\<close>

lemma onlyCommitters_processCommit:
  "onlyCommitters s \<Longrightarrow> onlyCommitters (snd (processCommit c s))"
  by (auto simp: onlyCommitters_def processCommit_def contributors_setUserData
        contributors_addContributor split: option.splits)

lemma member_processCommit:
  assumes "onlyCommitters s"
  shows "(k \<in> set (contributors (snd (processCommit c s)) t)) =
     (k \<in> set (contributors s t) \<or> (\<not> present s k \<and> firstOf (commitEvents c) k = Some t))"
proof (cases "user c")
  case None
  then show ?thesis
    using onlyCommitters_member [OF assms]
    by (auto simp: processCommit_def commitEvents_def contributors_setUserData
          member_addContributor firstOf_Cons firstOf_Nil present_def)
next
  case (Some u)
  then show ?thesis
    by (auto simp: processCommit_def commitEvents_def contributors_setUserData
          member_addContributor firstOf_loginEvents present_def skipUser_present)
qed

lemma tracks_processCommit:
  "tracks onlyCommitters (\<lambda>s. snd (processCommit c s)) (commitEvents c)"
  unfolding tracks_def using onlyCommitters_processCommit member_processCommit by blast

lemma tracks_commits:
  "tracks onlyCommitters (fold (\<lambda>c s. snd (processCommit c s)) cs)
     (concat (map commitEvents cs))"
  by (rule tracks_fold) (rule tracks_processCommit)

lemma member_commits:
  "(k \<in> set (contributors (fold (\<lambda>c s. snd (processCommit c s)) cs initial) t)) =
     (firstOf (concat (map commitEvents cs)) k = Some t)"
proof -
  have "onlyCommitters initial" "\<not> present initial k"
    by (simp_all add: onlyCommitters_def initial_def present_def)
  with tracks_commits [of cs] show ?thesis
    by (simp add: tracks_def initial_def)
qed

text \<open>The state an aggregation pass leaves: after all four channels when it ran to its
  end, after the commits up to the one whose write threw otherwise.\<close>

lemma aggregate_completed:
  assumes "fst (aggregate d s) = None"
  shows "fst (processCommits (commits d) s) = None"
    and "snd (aggregate d s) =
           processLinkedIssues (closingIssuesReferences d)
             (processComments (comments d)
               (processReviews (reviews d)
                 (fold (\<lambda>c s. snd (processCommit c s)) (commits d) s)))"
proof -
  obtain e s' where pc: "processCommits (commits d) s = (e, s')"
    by (cases "processCommits (commits d) s")
  with assms have e: "e = None" by (cases e) (auto simp: aggregate_def)
  with pc show "fst (processCommits (commits d) s) = None" by simp
  then have "s' = fold (\<lambda>c s. snd (processCommit c s)) (commits d) s"
    using forEach_fold [of processCommit "commits d" s] pc by (simp add: processCommits_def)
  with pc e show "snd (aggregate d s) =
           processLinkedIssues (closingIssuesReferences d)
             (processComments (comments d)
               (processReviews (reviews d)
                 (fold (\<lambda>c s. snd (processCommit c s)) (commits d) s)))"
    by (simp add: aggregate_def)
qed

lemma aggregate_thrown:
  assumes "fst (aggregate d s) \<noteq> None"
  shows "\<exists>n. snd (aggregate d s) = fold (\<lambda>c s. snd (processCommit c s)) (take n (commits d)) s"
proof -
  obtain e s' where pc: "processCommits (commits d) s = (e, s')"
    by (cases "processCommits (commits d) s")
  with assms have "e \<noteq> None" by (cases e) (auto simp: aggregate_def)
  with pc have "snd (aggregate d s) = snd (processCommits (commits d) s)"
    by (cases e) (auto simp: aggregate_def)
  with forEach_take [of processCommit "commits d" s] show ?thesis
    by (simp add: processCommits_def)
qed

lemma aggregate_member:
  assumes "fst (aggregate d initial) = None"
  shows "(k \<in> set (contributors (snd (aggregate d initial)) t)) = (firstCategory d k = Some t)"
proof -
  let ?s1 = "fold (\<lambda>c s. snd (processCommit c s)) (commits d) initial"
  let ?es1 = "concat (map commitEvents (commits d))"
  let ?rest = "\<lambda>s. processLinkedIssues (closingIssuesReferences d)
                 (processComments (comments d) (processReviews (reviews d) s))"
  let ?es2 = "loginEvents reviewers (reviews d) @ loginEvents commenters (comments d)
                @ concat (map issueEvents (closingIssuesReferences d))"
  have m1: "\<And>t k. (k \<in> set (contributors ?s1 t)) = (firstOf ?es1 k = Some t)"
    by (rule member_commits)
  have p1: "\<And>k. present ?s1 k = (firstOf ?es1 k \<noteq> None)"
    by (auto simp: present_def m1)
  have r: "tracks (\<lambda>s. True) (processReviews (reviews d)) (loginEvents reviewers (reviews d))"
    unfolding processReviews_def [abs_def] by (rule tracks_filterThenAdd)
  have c: "tracks (\<lambda>s. True) (processComments (comments d)) (loginEvents commenters (comments d))"
    unfolding processComments_def [abs_def] by (rule tracks_filterThenAdd)
  have rest: "tracks (\<lambda>s. True) ?rest ?es2"
    using tracks_comp [OF r tracks_comp [OF c tracks_processLinkedIssues]] by simp
  have "(k \<in> set (contributors (?rest ?s1) t)) =
      (k \<in> set (contributors ?s1 t) \<or> (\<not> present ?s1 k \<and> firstOf ?es2 k = Some t))"
    using rest by (simp add: tracks_def)
  also have "\<dots> = (firstOf (?es1 @ ?es2) k = Some t)"
    unfolding m1 p1 firstOf_append by (cases "firstOf ?es1 k") auto
  finally show ?thesis
    by (simp add: aggregate_completed(2) [OF assms] firstCategory_def events_def)
qed

text \<open>Whether or not the pass threw, a member of a set has that category as its first
  category in the data: a pass cut short has scanned a prefix of the events.\<close>

lemma aggregate_member_sound:
  assumes "k \<in> set (contributors (snd (aggregate d initial)) t)"
  shows "firstCategory d k = Some t"
proof (cases "fst (aggregate d initial) = None")
  case True
  with aggregate_member assms show ?thesis by simp
next
  case False
  from aggregate_thrown [OF False] obtain n where
    "snd (aggregate d initial) =
       fold (\<lambda>c s. snd (processCommit c s)) (take n (commits d)) initial" by blast
  with assms member_commits
  have f: "firstOf (concat (map commitEvents (take n (commits d)))) k = Some t" by simp
  have "concat (map commitEvents (commits d)) =
          concat (map commitEvents (take n (commits d)))
          @ concat (map commitEvents (drop n (commits d)))"
    by (metis append_take_drop_id concat_append map_append)
  with f show ?thesis by (simp add: firstCategory_def events_def firstOf_append)
qed

subsection \<open>Linked committers and excluded logins\<close>

lemma firstOf_commitEvents:
  "firstOf (concat (map commitEvents cs)) k =
     (if (\<exists>c \<in> set cs. case user c of None \<Rightarrow> author_email c = k
                                    | Some u \<Rightarrow> login u = k \<and> k \<notin> set skippedUsers)
      then Some committers else None)"
proof (induction cs)
  case Nil
  then show ?case by (simp add: firstOf_Nil)
next
  case (Cons c cs)
  show ?case
  proof (cases "user c")
    case None
    with Cons show ?thesis
      by (simp add: firstOf_append commitEvents_def firstOf_Cons firstOf_Nil)
  next
    case (Some u)
    with Cons show ?thesis
      by (auto simp: firstOf_append commitEvents_def firstOf_loginEvents)
  qed
qed

lemma card_le_one: "(\<And>x y. x \<in> A \<Longrightarrow> y \<in> A \<Longrightarrow> x = y) \<Longrightarrow> card A \<le> 1"
  by (metis card.infinite card_le_Suc0_iff_eq le_numeral_extra(4) One_nat_def zero_le)

lemma linked_firstCategory:
  assumes "l \<notin> set skippedUsers" and "l \<in> set (linkedCommitLogins d)"
  shows "firstCategory d l = Some committers"
proof -
  from assms(2) have "\<exists>c u. c \<in> set (commits d) \<and> user c = Some u \<and> login u = l"
    by (auto simp: linkedCommitLogins_def split: option.splits) metis
  then obtain c u where "c \<in> set (commits d)" "user c = Some u" "login u = l"
    by blast
  with assms(1) have "firstOf (concat (map commitEvents (commits d))) l = Some committers"
    unfolding firstOf_commitEvents by force
  then show ?thesis by (simp add: firstCategory_def events_def firstOf_append)
qed

lemma excluded_firstCategory:
  assumes "l \<in> set skippedUsers"
    and "\<forall>c \<in> set (commits d). user c = None \<longrightarrow> author_email c \<noteq> l"
  shows "firstCategory d l = None"
proof -
  have "firstOf (concat (map commitEvents (commits d))) l = None"
    unfolding firstOf_commitEvents using assms by (auto split: option.splits)
  moreover have "firstOf (concat (map issueEvents is)) l = None" for "is"
    using assms(1) by (induction "is") (simp_all add: firstOf_Nil firstOf_append issueEvents_def firstOf_loginEvents)
  ultimately show ?thesis
    using assms(1) by (simp add: firstCategory_def events_def firstOf_append firstOf_loginEvents)
qed

subsection \<open>Unfolding the pass on concrete data\<close>

lemmas aggregate_defs =
  aggregate_def processCommits_def processCommit_def processReviews_def processComments_def
  filterThenAdd_def processLinkedIssues_def processLinkedIssue_def processIssueComment_def
  addContributor_def setUserData_def Set_add_def skipUser_def contributorAlreadyPresent_def
  contributorTypes_def skippedUsers_def initial_def

lemmas example_defs = mkUser_def linkedCommit_def unlinkedCommit_def

subsection \<open>What every step of a run preserves\<close>

lemma fold_invariant:
  assumes "\<And>x s. P s \<Longrightarrow> P (step x s)" and "P s"
  shows "P (fold step xs s)"
  using assms(2) by (induction xs arbitrary: s) (simp_all add: assms(1))

lemma forEach_invariant:
  assumes "\<And>x s. P s \<Longrightarrow> P (snd (step x s))" and "P s"
  shows "P (snd (forEach step xs s))"
proof -
  from forEach_take [of step xs s] obtain n where
    "snd (forEach step xs s) = fold (\<lambda>x s. snd (step x s)) (take n xs) s" by blast
  with fold_invariant [of P "\<lambda>x s. snd (step x s)" s "take n xs"] assms show ?thesis by simp
qed

text \<open>A property that adding a member and writing a profile preserve is preserved by the
  aggregation pass and by the backfill, thrown or not.\<close>

lemma processCommit_invariant:
  assumes add: "\<And>t k s. P s \<Longrightarrow> P (addContributor t k s)"
    and wr: "\<And>k f s. P s \<Longrightarrow> P (snd (setUserData k f s))"
    and "P s"
  shows "P (snd (processCommit c s))"
  using assms(3) by (simp add: processCommit_def add wr split: option.splits)

lemma filterThenAdd_invariant:
  assumes add: "\<And>t k s. P s \<Longrightarrow> P (addContributor t k s)" and "P s"
  shows "P (filterThenAdd t ls s)"
  unfolding filterThenAdd_def
  by (rule fold_invariant [where P = P, OF _ assms(2)]) (rule add)

lemma processLinkedIssue_invariant:
  assumes add: "\<And>t k s. P s \<Longrightarrow> P (addContributor t k s)" and "P s"
  shows "P (processLinkedIssue i s)"
proof -
  have c: "\<And>l s. P s \<Longrightarrow> P (processIssueComment l s)"
    by (simp add: processIssueComment_def add)
  have a: "P (if \<not> skipUser (contributors s) (issue_author i)
           then addContributor reporters (issue_author i) s else s)"
    using assms(2) by (simp add: add)
  show ?thesis
    unfolding processLinkedIssue_def
    by (rule fold_invariant [where P = P, OF c a])
qed

lemma rest_invariant:
  assumes add: "\<And>t k s. P s \<Longrightarrow> P (addContributor t k s)" and "P s"
  shows "P (processLinkedIssues is (processComments cs (processReviews rs s)))"
  unfolding processLinkedIssues_def processComments_def processReviews_def
proof (rule fold_invariant [where P = P])
  show "P (processLinkedIssue i s)" if "P s" for i s
    by (rule processLinkedIssue_invariant [where P = P, OF add that])
  have r: "P (filterThenAdd reviewers rs s)"
    by (rule filterThenAdd_invariant [where P = P, OF add assms(2)])
  show "P (filterThenAdd commenters cs (filterThenAdd reviewers rs s))"
    by (rule filterThenAdd_invariant [where P = P, OF add r])
qed

lemma aggregate_invariant:
  assumes add: "\<And>t k s. P s \<Longrightarrow> P (addContributor t k s)"
    and wr: "\<And>k f s. P s \<Longrightarrow> P (snd (setUserData k f s))"
    and "P s"
  shows "P (snd (aggregate d s))"
proof -
  have pc: "P (snd (processCommits (commits d) s))"
    unfolding processCommits_def
  proof (rule forEach_invariant [where P = P, OF _ assms(3)])
    show "P (snd (processCommit c s))" if "P s" for c s
      by (rule processCommit_invariant [where P = P, OF add wr that])
  qed
  obtain e s' where r: "processCommits (commits d) s = (e, s')"
    by (cases "processCommits (commits d) s")
  with pc have s': "P s'" by simp
  from rest_invariant [where P = P, OF add s'] r s' show ?thesis
    by (cases e) (simp_all add: aggregate_def)
qed

lemma backfill_invariant:
  assumes wr: "\<And>k f s. P s \<Longrightarrow> P (snd (setUserData k f s))" and "P s"
  shows "P (snd (fst (backfill sv s)))"
proof -
  have "P (snd (storeUsers us s))" for us
    unfolding storeUsers_def
    by (rule forEach_invariant [where P = P, OF _ assms(2)]) (rule wr)
  with assms(2) show ?thesis by (simp add: backfill_def)
qed

subsection \<open>The profile table and the committers after the pass\<close>

lemma distinct_Set_add: "distinct xs \<Longrightarrow> distinct (Set_add k xs)"
  by (simp add: Set_add_def)

lemma distinct_addContributor:
  "distinct (contributors s t') \<Longrightarrow> distinct (contributors (addContributor t k s) t')"
  by (auto simp: contributors_addContributor distinct_Set_add)

lemma distinct_aggregate:
  assumes "distinct (contributors s t)"
  shows "distinct (contributors (snd (aggregate d s)) t)"
  by (rule aggregate_invariant [where P = "\<lambda>s. distinct (contributors s t)", OF _ _ assms])
     (simp_all add: distinct_addContributor contributors_setUserData)

lemma count_list_distinct: "distinct xs \<Longrightarrow> x \<in> set xs \<Longrightarrow> count_list xs x = 1"
  by (induction xs) auto

lemma userData_rest:
  "userData (processLinkedIssues is (processComments cs (processReviews rs s))) = userData s"
  by (rule rest_invariant [where P = "\<lambda>s'. userData s' = userData s"])
     (simp_all add: userData_addContributor)

lemma committers_rest:
  "set (contributors s t)
     \<subseteq> set (contributors (processLinkedIssues is (processComments cs (processReviews rs s))) t)"
  by (rule rest_invariant [where P = "\<lambda>s'. set (contributors s t) \<subseteq> set (contributors s' t)"])
     (auto simp: member_addContributor)

text \<open>After the commits, an email other than \<^verbatim>\<open>length\<close> and \<^verbatim>\<open>__proto__\<close> that a commit
  without a linked account carries is a committer, and its profile is that of the last
  such commit.\<close>

lemma last_unlinked_commit_profile:
  assumes "filter (\<lambda>c. user c = None \<and> author_email c = e) cs \<noteq> []"
    and "e \<noteq> ''length''" and "e \<noteq> ''__proto__''"
  shows "e \<in> set (contributors (fold (\<lambda>c s. snd (processCommit c s)) cs s) committers) \<and>
         userData (fold (\<lambda>c s. snd (processCommit c s)) cs s) e =
           Some \<lparr>info = NameEmail
                    (author_name (last (filter (\<lambda>c. user c = None \<and> author_email c = e) cs))) e,
                 dotOrg = None\<rparr>"
  using assms(1)
proof (induction cs rule: rev_induct)
  case Nil
  then show ?case by simp
next
  case (snoc c cs)
  let ?P = "\<lambda>c. user c = None \<and> author_email c = e"
  let ?s = "fold (\<lambda>c s. snd (processCommit c s)) cs s"
  show ?case
  proof (cases "?P c")
    case True
    then show ?thesis
      using assms(2,3)
      by (simp add: processCommit_def userData_setUserData contributors_setUserData
            member_addContributor userData_addContributor)
  next
    case False
    with snoc.prems have ne: "filter ?P cs \<noteq> []" by simp
    note IH = snoc.IH [OF ne]
    from IH have skip: "skipUser (contributors ?s) e"
      by (auto simp: skipUser_iff)
    show ?thesis
    proof (cases "user c")
      case None
      with False have "author_email c \<noteq> e" by simp
      with None IH False show ?thesis
        by (simp add: processCommit_def userData_setUserData contributors_setUserData
              member_addContributor userData_addContributor)
    next
      case (Some u)
      show ?thesis
      proof (cases "skipUser (contributors ?s) (login u)")
        case True
        with Some IH False show ?thesis
          by (simp add: processCommit_def)
      next
        case False
        with skip have "login u \<noteq> e" by auto
        with Some IH False \<open>\<not> ?P c\<close> show ?thesis
          by (simp add: processCommit_def userData_setUserData contributors_setUserData
                member_addContributor userData_addContributor)
      qed
    qed
  qed
qed

text \<open>A commit without a linked account whose email is \<^verbatim>\<open>length\<close> makes the pass
  throw; without a commit that writes under \<^verbatim>\<open>length\<close> the pass runs to its end.\<close>

lemma processCommit_thrown:
  "fst (processCommit c s) =
     (case user c of
        None \<Rightarrow> if author_email c = ''length'' then Some RangeError else None
      | Some u \<Rightarrow>
          if \<not> skipUser (contributors s) (login u) \<and> login u = ''length''
          then Some RangeError else None)"
  by (auto simp: processCommit_def thrown_setUserData split: option.splits)

lemma aggregate_completes:
  assumes "\<forall>c \<in> set (commits d). user c = None \<longrightarrow> author_email c \<noteq> ''length''"
    and "''length'' \<notin> set (linkedCommitLogins d)"
  shows "fst (aggregate d s) = None"
proof -
  have "fst (processCommit c s') = None" if "c \<in> set (commits d)" for c s'
  proof (cases "user c")
    case None
    with assms(1) that show ?thesis by (simp add: processCommit_thrown)
  next
    case (Some u)
    with that have "login u \<in> set (linkedCommitLogins d)"
      by (force simp: linkedCommitLogins_def)
    with assms(2) Some show ?thesis by (auto simp: processCommit_thrown)
  qed
  then have "fst (processCommits (commits d) s) = None"
    unfolding processCommits_def by (rule forEach_completes)
  then show ?thesis
    by (cases "processCommits (commits d) s") (simp add: aggregate_def)
qed

lemma unlinked_length_throws:
  assumes "c \<in> set cs" and "user c = None" and "author_email c = ''length''"
  shows "fst (forEach processCommit cs s) = Some RangeError"
  using assms(1)
proof (induction cs arbitrary: s)
  case Nil
  then show ?case by simp
next
  case (Cons x xs)
  obtain e s' where st: "processCommit x s = (e, s')" by (cases "processCommit x s")
  show ?case
  proof (cases e)
    case (Some err)
    from st have "e = fst (processCommit x s)" by simp
    with Some have "err = RangeError"
      by (auto simp: processCommit_thrown split: option.splits if_splits)
    with st Some show ?thesis by simp
  next
    case None
    with st have "fst (processCommit x s) = None" by simp
    with assms(2,3) have "x \<noteq> c" by (auto simp: processCommit_thrown)
    with Cons.prems have "c \<in> set xs" by simp
    from Cons.IH [OF this] st None show ?thesis by simp
  qed
qed

subsection \<open>Backfill and early return\<close>

lemma storeUsers_completes:
  assumes "\<forall>u \<in> set us. login u \<noteq> ''length''"
  shows "fst (storeUsers us s) = None"
  unfolding storeUsers_def
proof (rule forEach_completes)
  fix u s' assume "u \<in> set us"
  with assms have "login u \<noteq> ''length''" by blast
  then show "fst (setUserData (login u) (Account u) s') = None"
    by (simp add: thrown_setUserData)
qed

lemma storeUsers_lookup:
  assumes "distinct (map login us)" and "u \<in> set us"
    and "login u \<noteq> ''length''" and "login u \<noteq> ''__proto__''"
  shows "userData (fold (\<lambda>u s. snd (setUserData (login u) (Account u) s)) us s) (login u)
           = Some \<lparr>info = Account u, dotOrg = None\<rparr>"
  using assms(1,2)
proof (induction us arbitrary: s rule: rev_induct)
  case Nil
  then show ?case by simp
next
  case (snoc x xs)
  show ?case
  proof (cases "u = x")
    case True
    with assms(3,4) show ?thesis by (simp add: userData_setUserData)
  next
    case False
    with snoc.prems have "u \<in> set xs" "distinct (map login xs)" "login u \<noteq> login x"
      by (auto simp: image_iff)
    with snoc.IH [of s] show ?thesis
      by (simp add: userData_setUserData)
  qed
qed

text \<open>When the answer to the batched profile request has a record for every login of the
  union, no two records with the same login, and no record with the login
  \<^verbatim>\<open>length\<close> or \<^verbatim>\<open>__proto__\<close>, the backfill runs to its end and the profile table
  holds, under each login of the union, the record that carries it.\<close>

lemma backfill_stores_returned_profiles:
  assumes "\<forall>l \<in> set (usersToFetch s). \<exists>u \<in> set (getUsersData sv (usersToFetch s)). login u = l"
    and "distinct (map login (getUsersData sv (usersToFetch s)))"
    and "\<forall>u \<in> set (getUsersData sv (usersToFetch s)). login u \<noteq> ''length''"
    and "\<forall>u \<in> set (getUsersData sv (usersToFetch s)). login u \<noteq> ''__proto__''"
  shows "fst (fst (backfill sv s)) = None
       \<and> (\<forall>l \<in> set (usersToFetch s). \<exists>u \<in> set (getUsersData sv (usersToFetch s)).
           login u = l \<and>
           userData (snd (fst (backfill sv s))) l = Some \<lparr>info = Account u, dotOrg = None\<rparr>)"
proof
  let ?us = "getUsersData sv (usersToFetch s)"
  have c: "fst (storeUsers ?us s) = None" by (rule storeUsers_completes [OF assms(3)])
  then show "fst (fst (backfill sv s)) = None" by (simp add: backfill_def)
  from c have st: "snd (storeUsers ?us s)
      = fold (\<lambda>u s. snd (setUserData (login u) (Account u) s)) ?us s"
    unfolding storeUsers_def by (rule forEach_fold)
  show "\<forall>l \<in> set (usersToFetch s). \<exists>u \<in> set ?us.
           login u = l \<and>
           userData (snd (fst (backfill sv s))) l = Some \<lparr>info = Account u, dotOrg = None\<rparr>"
  proof
    fix l assume l: "l \<in> set (usersToFetch s)"
    with assms(1) obtain u where u: "u \<in> set ?us" "login u = l"
      by blast
    with assms(3,4) have n: "login u \<noteq> ''length''" "login u \<noteq> ''__proto__''" by blast+
    from l have "length (usersToFetch s) > 0" by (cases "usersToFetch s") auto
    then have "userData (snd (fst (backfill sv s))) l = Some \<lparr>info = Account u, dotOrg = None\<rparr>"
      using storeUsers_lookup [OF assms(2) u(1) n, of s] u(2) st by (simp add: backfill_def)
    with u show "\<exists>u \<in> set ?us.
           login u = l \<and>
           userData (snd (fst (backfill sv s))) l = Some \<lparr>info = Account u, dotOrg = None\<rparr>"
      by blast
  qed
qed

text \<open>A record with the login \<^verbatim>\<open>length\<close> in the answer makes the backfill throw.\<close>

lemma storeUsers_length_throws:
  assumes "u \<in> set us" and "login u = ''length''"
  shows "fst (storeUsers us s) = Some RangeError"
  using assms(1) unfolding storeUsers_def
proof (induction us arbitrary: s)
  case Nil
  then show ?case by simp
next
  case (Cons x xs)
  show ?case
  proof (cases "login x = ''length''")
    case True
    then show ?thesis by (simp add: setUserData_def)
  next
    case False
    with assms(2) Cons.prems have "u \<in> set xs" by auto
    from Cons.IH [OF this] False show ?thesis by (simp add: setUserData_def)
  qed
qed

text \<open>When the pass runs to its end, an email other than \<^verbatim>\<open>length\<close> and \<^verbatim>\<open>__proto__\<close>
  that commits without a linked account carry is once in \<open>committers\<close>, and its profile
  is the name and email of the last such commit.\<close>

lemma repeated_email_recorded_once:
  assumes "unlinkedCommits d e \<noteq> []"
    and "e \<noteq> ''length''" and "e \<noteq> ''__proto__''"
    and "fst (aggregate d initial) = None"
  shows "count_list (contributors (snd (aggregate d initial)) committers) e = 1
       \<and> userData (snd (aggregate d initial)) e =
           Some \<lparr>info = NameEmail (author_name (last (unlinkedCommits d e))) e, dotOrg = None\<rparr>"
proof -
  from assms(1) have ne: "filter (\<lambda>c. user c = None \<and> author_email c = e) (commits d) \<noteq> []"
    by (simp add: unlinkedCommits_def)
  note L = last_unlinked_commit_profile [OF ne assms(2,3), of initial]
  note A = aggregate_completed(2) [OF assms(4)]
  have "e \<in> set (contributors (snd (aggregate d initial)) committers)"
    using L committers_rest unfolding A by blast
  moreover have "distinct (contributors (snd (aggregate d initial)) committers)"
    by (rule distinct_aggregate) (simp add: initial_def)
  ultimately have "count_list (contributors (snd (aggregate d initial)) committers) e = 1"
    by (simp add: count_list_distinct)
  with L show ?thesis by (simp add: A userData_rest unlinkedCommits_def)
qed

lemma example_contributors:
  "fst (aggregate exampleData initial) = None"
  "contributors (snd (aggregate exampleData initial)) committers = [''alice'', ''bob@example.com'']"
  "contributors (snd (aggregate exampleData initial)) reviewers = [''carol'']"
  "contributors (snd (aggregate exampleData initial)) commenters = [''dave'', ''frank'']"
  "contributors (snd (aggregate exampleData initial)) reporters = [''erin'']"
  by (simp_all add: exampleData_def aggregate_defs example_defs)

lemma githubUsers_no_fetch:
  "usersToFetch s = [] \<Longrightarrow> githubUsers s = contributors s committers"
  by (simp add: usersToFetch_def githubUsers_def contributorTypes_def)

lemma commitOnly_contributors:
  "fst (aggregate commitOnlyData initial) = None"
  "contributors (snd (aggregate commitOnlyData initial)) committers = [''alice'']"
  "contributors (snd (aggregate commitOnlyData initial)) reviewers = []"
  "contributors (snd (aggregate commitOnlyData initial)) commenters = []"
  "contributors (snd (aggregate commitOnlyData initial)) reporters = []"
  by (simp_all add: commitOnlyData_def aggregate_defs example_defs)

lemmas pipeline_defs =
  getContributorsList_def gathered_def backfill_def usersToFetch_def githubUsers_def
  storeUsers_def mergeWPOrg_def render_def renderSection_def readUserData_def Set_length_def
  header_values trailer_def exampleServices_def answerUsers_def answerDirectory_def Let_def

lemma contributors_backfill: "contributors (snd (fst (backfill sv s))) = contributors s"
  by (rule backfill_invariant [where P = "\<lambda>s'. contributors s' = contributors s"])
     (simp_all add: contributors_setUserData)

text \<open>The run as the composition of its parts, when aggregation and backfill ran to their
  end.\<close>

lemma gathered_cases:
  obtains (thrown) e where "fst (gathered sv s) = Some e"
      "returned (getContributorsList sv s) = Inl e"
      "final (getContributorsList sv s) = snd (gathered sv s)"
    | (completed) "fst (gathered sv s) = None"
      "fst (aggregate (getContributorData sv) s) = None"
      "snd (gathered sv s) = snd (fst (backfill sv (snd (aggregate (getContributorData sv) s))))"
      "getContributorsList sv s =
         (if length (githubUsers (snd (gathered sv s))) = 0
          then \<lparr>returned = Inr None, final = snd (gathered sv s),
                requests = ContributorDataQuery
                  # snd (backfill sv (snd (aggregate (getContributorData sv) s)))\<rparr>
          else \<lparr>returned =
                 (case render sv (mergeWPOrg (getWPOrgData sv (githubUsers (snd (gathered sv s))))
                                   (snd (gathered sv s))) of
                    Inl e \<Rightarrow> Inl e | Inr (t, unc) \<Rightarrow> Inr (Some t)),
                final = mergeWPOrg (getWPOrgData sv (githubUsers (snd (gathered sv s))))
                          (snd (gathered sv s)),
                requests = ContributorDataQuery
                  # snd (backfill sv (snd (aggregate (getContributorData sv) s)))
                  @ [WPOrgLookup (githubUsers (snd (gathered sv s)))]\<rparr>)"
proof -
  obtain e1 s1 where a: "aggregate (getContributorData sv) s = (e1, s1)"
    by (cases "aggregate (getContributorData sv) s")
  obtain r asked where b: "backfill sv s1 = (r, asked)" by (cases "backfill sv s1")
  obtain e2 s2 where r: "r = (e2, s2)" by (cases r)
  show ?thesis
  proof (cases e1)
    case (Some e)
    with a have "fst (gathered sv s) = Some e" "returned (getContributorsList sv s) = Inl e"
      "final (getContributorsList sv s) = snd (gathered sv s)"
      by (simp_all add: gathered_def getContributorsList_def)
    then show ?thesis by (rule thrown)
  next
    case None
    note e1 = this
    show ?thesis
    proof (cases e2)
      case (Some e)
      with a b r e1 have "fst (gathered sv s) = Some e"
        "returned (getContributorsList sv s) = Inl e"
        "final (getContributorsList sv s) = snd (gathered sv s)"
        by (simp_all add: gathered_def getContributorsList_def)
      then show ?thesis by (rule thrown)
    next
      case None
      with a b r e1 show ?thesis
        by (intro completed) (simp_all add: gathered_def getContributorsList_def Let_def)
    qed
  qed
qed

lemma gathered_invariant:
  assumes add: "\<And>t k s. P s \<Longrightarrow> P (addContributor t k s)"
    and wr: "\<And>k f s. P s \<Longrightarrow> P (snd (setUserData k f s))"
    and "P s"
  shows "P (snd (gathered sv s))"
proof -
  have a: "P (snd (aggregate (getContributorData sv) s))"
    by (rule aggregate_invariant [where P = P, OF add wr assms(3)])
  have b: "P (snd (fst (backfill sv (snd (aggregate (getContributorData sv) s)))))"
    by (rule backfill_invariant [where P = P, OF wr a])
  obtain e1 s1 where r: "aggregate (getContributorData sv) s = (e1, s1)"
    by (cases "aggregate (getContributorData sv) s")
  with a b show ?thesis by (cases e1) (simp_all add: gathered_def)
qed

lemma contributors_gathered:
  "contributors (snd (gathered sv s)) = contributors (snd (aggregate (getContributorData sv) s))"
proof -
  obtain e1 s1 where r: "aggregate (getContributorData sv) s = (e1, s1)"
    by (cases "aggregate (getContributorData sv) s")
  then show ?thesis by (cases e1) (simp_all add: gathered_def contributors_backfill)
qed

lemma no_contributors_returns_undefined:
  assumes "fst (aggregate (getContributorData sv) s) = None"
    and "githubUsers (snd (aggregate (getContributorData sv) s)) = []"
  shows "returned (getContributorsList sv s) = Inr None"
proof -
  from assms(2) have u: "usersToFetch (snd (aggregate (getContributorData sv) s)) = []"
    by (simp add: githubUsers_def usersToFetch_def contributorTypes_def)
  obtain e1 s1 where r: "aggregate (getContributorData sv) s = (e1, s1)"
    by (cases "aggregate (getContributorData sv) s")
  with assms u show ?thesis
    by (simp add: getContributorsList_def backfill_def)
qed

subsection \<open>Rendering a member without a profile of its own\<close>

text \<open>A reviewer for whom the batched request has no record: the read of the profile
  gives \<^verbatim>\<open>undefined\<close> and the renderer throws a TypeError. When the login is the name
  of a property that the Array inherits, the read gives that property, nothing is
  thrown, and the login is listed as unconnected.\<close>

lemma missing_profile_throws:
  "readUserData (unansweredServices reviewOnlyData)
     (final (getContributorsList (unansweredServices reviewOnlyData) initial)) ''bob'' = Undefined"
  "returned (getContributorsList (unansweredServices reviewOnlyData) initial) = Inl TypeError"
  by (simp_all add: unansweredServices_def pipeline_defs reviewOnlyData_def aggregate_defs
        exampleArrayNames_def exampleObjectNames_def)

lemma inherited_name_unconnected:
  "readUserData (unansweredServices constructorReviewData)
     (final (getContributorsList (unansweredServices constructorReviewData) initial))
     ''constructor'' = OtherValue"
  "render (unansweredServices constructorReviewData)
     (final (getContributorsList (unansweredServices constructorReviewData) initial)) =
     Inr (''# Committers\<newline>\<newline>\<newline># Reviewers\<newline>\<newline>\<newline># Commenters\<newline>\<newline>\<newline># Reporters\<newline>'',
          [''constructor''])"
  "returned (getContributorsList (unansweredServices constructorReviewData) initial) =
     Inr (Some ''# Committers\<newline>\<newline>\<newline># Reviewers\<newline>\<newline>\<newline># Commenters\<newline>\<newline>\<newline># Reporters\<newline>'')"
  by (simp_all add: unansweredServices_def pipeline_defs constructorReviewData_def aggregate_defs
        exampleArrayNames_def exampleObjectNames_def)

subsection \<open>A run keeps what the state held\<close>

lemma keeps_refl: "keeps s s"
  by (simp add: keeps_def)

lemma keeps_trans: "keeps s s' \<Longrightarrow> keeps s' s'' \<Longrightarrow> keeps s s''"
  unfolding keeps_def by (meson subset_trans)

lemma keeps_addContributor: "keeps s (addContributor t k s)"
  by (auto simp: keeps_def member_addContributor userData_addContributor)

lemma keeps_setUserData: "keeps s (snd (setUserData k f s))"
  by (auto simp: keeps_def contributors_setUserData userData_setUserData)

lemma keeps_gathered: "keeps s (snd (gathered sv s))"
proof (rule gathered_invariant [where P = "keeps s"])
  show "keeps s (addContributor t k s')" if "keeps s s'" for t k s'
    by (rule keeps_trans [OF that keeps_addContributor])
  show "keeps s (snd (setUserData k f s'))" if "keeps s s'" for k f s'
    by (rule keeps_trans [OF that keeps_setUserData])
  show "keeps s s" by (rule keeps_refl)
qed

lemma keeps_mergeWPOrg: "keeps s (mergeWPOrg w s)"
  by (auto simp: keeps_def mergeWPOrg_def split: option.splits wporg_entry.splits)

text \<open>Whether the run returns or throws.\<close>

lemma keeps_getContributorsList: "keeps s (final (getContributorsList sv s))"
proof (cases rule: gathered_cases [of sv s])
  case (thrown e)
  with keeps_gathered [of s sv] show ?thesis by simp
next
  case completed
  have "keeps s (mergeWPOrg w (snd (gathered sv s)))" for w
    by (rule keeps_trans [OF keeps_gathered keeps_mergeWPOrg])
  with keeps_gathered [of s sv] show ?thesis
    unfolding completed(4) by simp
qed

subsection \<open>The sanitizer, and rendering two contributors\<close>

lemma replaceAll_class:
  "replaceAll cls [r] s = map (\<lambda>c. if cls c then r else c) s"
  by (induction s) simp_all

lemma two_members:
  assumes "distinct xs" and "set xs = {a, b}" and "a \<noteq> b"
  shows "xs = [a, b] \<or> xs = [b, a]"
proof -
  from assms have "length xs = 2"
    by (metis distinct_card card_2_iff)
  then obtain x y where xs: "xs = [x, y]"
    by (metis (no_types, opaque_lifting) One_nat_def Suc_1 Suc_length_conv length_0_conv)
  with assms show ?thesis by (auto simp: doubleton_eq_iff)
qed

lemma append4_two:
  assumes "c1 @ c2 @ c3 @ c4 = [x, y]"
  shows "(c1 = [x, y] \<and> c2 = [] \<and> c3 = [] \<and> c4 = [])
       \<or> (c1 = [x] \<and> c2 = [y] \<and> c3 = [] \<and> c4 = [])
       \<or> (c1 = [x] \<and> c2 = [] \<and> c3 = [y] \<and> c4 = [])
       \<or> (c1 = [x] \<and> c2 = [] \<and> c3 = [] \<and> c4 = [y])
       \<or> (c1 = [] \<and> c2 = [x, y] \<and> c3 = [] \<and> c4 = [])
       \<or> (c1 = [] \<and> c2 = [x] \<and> c3 = [y] \<and> c4 = [])
       \<or> (c1 = [] \<and> c2 = [x] \<and> c3 = [] \<and> c4 = [y])
       \<or> (c1 = [] \<and> c2 = [] \<and> c3 = [x, y] \<and> c4 = [])
       \<or> (c1 = [] \<and> c2 = [] \<and> c3 = [x] \<and> c4 = [y])
       \<or> (c1 = [] \<and> c2 = [] \<and> c3 = [] \<and> c4 = [x, y])"
  using assms by (auto simp: append_eq_Cons_conv Cons_eq_append_conv)

lemmas render_defs =
  render_def renderSection_def readUserData_def Set_length_def header_values trailer_def
  contributorTypes_def isTrailerFor_def

lemma render_alice_bob:
  assumes ud: "userData s ''alice'' = Some pa" "userData s ''bob'' = Some pb" "dotOrg pb = None"
    and w: "w ''alice'' = Some (Slug ''alice-wp'')" "w ''bob'' = Some NotLinked"
    and cs: "contributors s committers = c1" "contributors s reviewers = c2"
            "contributors s commenters = c3" "contributors s reporters = c4"
    and all: "c1 @ c2 @ c3 @ c4 = [''alice'', ''bob''] \<or> c1 @ c2 @ c3 @ c4 = [''bob'', ''alice'']"
  shows "\<exists>text. render sv (mergeWPOrg w s) = Inr (text, [''bob''])
          \<and> filter (isTrailerFor ''alice'') (splitLines text)
              = [''Co-authored-by: alice <alice-wp@git.wordpress.org>'']
          \<and> filter (isTrailerFor ''bob'') (splitLines text) = []"
proof -
  have m: "userData (mergeWPOrg w s) ''alice'' = Some (pa\<lparr>dotOrg := Some ''alice-wp''\<rparr>)"
    "userData (mergeWPOrg w s) ''bob'' = Some pb"
    "contributors (mergeWPOrg w s) = contributors s"
    using ud w by (simp_all add: mergeWPOrg_def)
  from all show ?thesis
  proof
    assume "c1 @ c2 @ c3 @ c4 = [''alice'', ''bob'']"
    from append4_two [OF this] show ?thesis
      using cs m ud(3) by (elim disjE) (simp_all add: render_defs)
  next
    assume "c1 @ c2 @ c3 @ c4 = [''bob'', ''alice'']"
    from append4_two [OF this] show ?thesis
      using cs m ud(3) by (elim disjE) (simp_all add: render_defs)
  qed
qed

subsection \<open>A run from the freshly loaded state: no stale handle, no member twice\<close>

lemma noDotOrg_gathered: "noDotOrg (snd (gathered sv initial))"
  by (rule gathered_invariant [where P = noDotOrg])
     (simp_all add: noDotOrg_def userData_addContributor userData_setUserData initial_def)

lemma distinct_githubUsers_gathered: "distinct (githubUsers (snd (gathered sv initial)))"
proof -
  let ?d = "getContributorData sv"
  let ?a = "snd (aggregate ?d initial)"
  have d: "distinct (contributors ?a t)" for t
    by (rule distinct_aggregate) (simp add: initial_def)
  have disj: "t \<noteq> t' \<Longrightarrow> set (contributors ?a t) \<inter> set (contributors ?a t') = {}" for t t'
    using aggregate_member_sound [of _ ?d t] aggregate_member_sound [of _ ?d t'] by fastforce
  have "set (contributors ?a committers) \<inter> set (contributors ?a reviewers) = {}"
    "set (contributors ?a committers) \<inter> set (contributors ?a commenters) = {}"
    "set (contributors ?a committers) \<inter> set (contributors ?a reporters) = {}"
    "set (contributors ?a reviewers) \<inter> set (contributors ?a commenters) = {}"
    "set (contributors ?a reviewers) \<inter> set (contributors ?a reporters) = {}"
    "set (contributors ?a commenters) \<inter> set (contributors ?a reporters) = {}"
    by (simp_all add: disj)
  then show ?thesis
    unfolding githubUsers_def contributorTypes_def contributors_gathered
    using d by (simp add: Int_Un_distrib)
qed

lemma noDotOrg_lookup:
  assumes "noDotOrg s" and "userData s k = Some p"
  shows "dotOrg p = None"
  by (rule assms(1) [unfolded noDotOrg_def, rule_format, OF assms(2)])

lemma githubUsers_nonempty:
  assumes "set (githubUsers (snd (gathered sv initial))) = {''alice'', ''bob''}"
  shows "githubUsers (snd (gathered sv initial)) \<noteq> []"
proof
  assume "githubUsers (snd (gathered sv initial)) = []"
  then have "set (githubUsers (snd (gathered sv initial))) = {}" by simp
  with assms show False by simp
qed

section \<open>The claims\<close>

text \<open>
  Claim C1. From the freshly loaded state, after the aggregation pass of any contribution
  data has completed, a key is a member of the set of a category exactly when the first
  event that carries the key, in the processing order of the channels, has that category;
  so every key, a login or an email, belongs to at most one of the four sets. A pass that
  an exception cut short has only members whose first event has the category of their
  set, and there too no key is in two sets. (The pass completes when no commit writes a
  profile under the key \<open>length\<close>, see \<open>aggregate_completes\<close>.)
\<close>

theorem C1_one_category_by_first_occurrence:
  "(fst (aggregate d initial) = None \<longrightarrow>
      (k \<in> set (contributors (snd (aggregate d initial)) t)) = (firstCategory d k = Some t))
   \<and> (k \<in> set (contributors (snd (aggregate d initial)) t) \<longrightarrow> firstCategory d k = Some t)
   \<and> card {t. k \<in> set (contributors (snd (aggregate d initial)) t)} \<le> 1"
proof (intro conjI impI)
  assume "fst (aggregate d initial) = None"
  then show "(k \<in> set (contributors (snd (aggregate d initial)) t)) = (firstCategory d k = Some t)"
    by (rule aggregate_member)
next
  assume "k \<in> set (contributors (snd (aggregate d initial)) t)"
  then show "firstCategory d k = Some t" by (rule aggregate_member_sound)
next
  have "x = y" if "k \<in> set (contributors (snd (aggregate d initial)) x)"
    and "k \<in> set (contributors (snd (aggregate d initial)) y)" for x y
    using aggregate_member_sound [OF that(1)] aggregate_member_sound [OF that(2)] by simp
  then show "card {t. k \<in> set (contributors (snd (aggregate d initial)) t)} \<le> 1"
    by (intro card_le_one) simp
qed

text \<open>The example data: the pass completes; \<open>erin\<close> reports the linked issue and then
  comments on it; the reporter channel of an issue is scanned before its comments, so
  \<open>erin\<close> is a reporter and not a commenter.\<close>

theorem C1_one_category_witness:
  "fst (aggregate exampleData initial) = None
   \<and> firstCategory exampleData ''erin'' = Some reporters
   \<and> ''erin'' \<in> set (contributors (snd (aggregate exampleData initial)) reporters)
   \<and> ''erin'' \<notin> set (contributors (snd (aggregate exampleData initial)) commenters)
   \<and> card {t. ''erin'' \<in> set (contributors (snd (aggregate exampleData initial)) t)} \<le> 1"
proof -
  have c: "fst (aggregate exampleData initial) = None"
    by (rule example_contributors(1))
  have f: "firstCategory exampleData ''erin'' = Some reporters"
    by (simp add: firstCategory_def events_def exampleData_def commitEvents_def loginEvents_def
          issueEvents_def firstOf_def skippedUsers_def example_defs)
  from C1_one_category_by_first_occurrence [of exampleData "''erin''" reporters]
    C1_one_category_by_first_occurrence [of exampleData "''erin''" commenters] c f
  show ?thesis by simp
qed

text \<open>
  Claim C2, as amended. A login that is not on the exclusion list and appears both as the
  linked account of a commit's author and as the author of a review is, after the
  aggregation pass from the freshly loaded state, a member of no set other than
  \<open>committers\<close>, and a member of \<open>committers\<close> when the pass has completed. The
  claim as stated, for every login, fails at the excluded login \<open>github-actions\<close>, which
  the guard of \<open>skipUser\<close> keeps out of every set.
\<close>

theorem C2_committer_and_reviewer_is_committer_only:
  assumes "l \<notin> set skippedUsers"
    and "l \<in> set (linkedCommitLogins d)"
    and "l \<in> set (reviews d)"
  shows "(fst (aggregate d initial) = None \<longrightarrow>
            l \<in> set (contributors (snd (aggregate d initial)) committers))
       \<and> l \<notin> set (contributors (snd (aggregate d initial)) reviewers)
       \<and> l \<notin> set (contributors (snd (aggregate d initial)) commenters)
       \<and> l \<notin> set (contributors (snd (aggregate d initial)) reporters)"
proof -
  note f = linked_firstCategory [OF assms(1,2)]
  have "l \<notin> set (contributors (snd (aggregate d initial)) t)" if "t \<noteq> committers" for t
    using aggregate_member_sound [of l d t] f that by auto
  moreover have "l \<in> set (contributors (snd (aggregate d initial)) committers)"
    if "fst (aggregate d initial) = None"
    using aggregate_member [OF that, of l committers] f by simp
  ultimately show ?thesis by simp
qed

theorem C2_committer_and_reviewer_witness:
  "''alice'' \<notin> set skippedUsers
   \<and> ''alice'' \<in> set (linkedCommitLogins exampleData)
   \<and> ''alice'' \<in> set (reviews exampleData)
   \<and> fst (aggregate exampleData initial) = None
   \<and> ''alice'' \<in> set (contributors (snd (aggregate exampleData initial)) committers)
   \<and> ''alice'' \<notin> set (contributors (snd (aggregate exampleData initial)) reviewers)
   \<and> ''alice'' \<notin> set (contributors (snd (aggregate exampleData initial)) commenters)
   \<and> ''alice'' \<notin> set (contributors (snd (aggregate exampleData initial)) reporters)"
proof -
  have h: "''alice'' \<notin> set skippedUsers" "''alice'' \<in> set (linkedCommitLogins exampleData)"
    "''alice'' \<in> set (reviews exampleData)"
    by (simp_all add: skippedUsers_def linkedCommitLogins_def exampleData_def example_defs)
  have c: "fst (aggregate exampleData initial) = None"
    by (rule example_contributors(1))
  from C2_committer_and_reviewer_is_committer_only [OF h] h c show ?thesis by simp
qed

text \<open>The excluded login, linked author of a commit and reviewer: the pass completes and
  the login is not a committer.\<close>

theorem C2_excluded_committer_counterexample:
  "''github-actions'' \<in> set (linkedCommitLogins botData)
   \<and> ''github-actions'' \<in> set (reviews botData)
   \<and> fst (aggregate botData initial) = None
   \<and> ''github-actions'' \<notin> set (contributors (snd (aggregate botData initial)) committers)"
  by (simp add: botData_def linkedCommitLogins_def aggregate_defs example_defs)

text \<open>
  Claim C3, as amended. When no commit without a linked account carries the string
  \<open>github-actions\<close> as its email, that login is, after the aggregation pass from the
  freshly loaded state, a member of none of the four sets, in whichever channels it
  appears. The claim as stated fails when such a commit exists: the email branch adds its
  key to \<open>committers\<close> without consulting \<open>skipUser\<close>.
\<close>

theorem C3_excluded_login_in_no_category:
  assumes "\<forall>c \<in> set (commits d). user c = None \<longrightarrow> author_email c \<noteq> ''github-actions''"
  shows "\<forall>t. ''github-actions'' \<notin> set (contributors (snd (aggregate d initial)) t)"
proof
  fix t
  from excluded_firstCategory [of "''github-actions''" d] assms
  have "firstCategory d ''github-actions'' = None" by (simp add: skippedUsers_def)
  with aggregate_member_sound [of "''github-actions''" d t]
  show "''github-actions'' \<notin> set (contributors (snd (aggregate d initial)) t)" by auto
qed

text \<open>The excluded login in all five channels.\<close>

theorem C3_excluded_login_witness:
  "''github-actions'' \<in> set (linkedCommitLogins (botEverywhere []))
   \<and> ''github-actions'' \<in> set (reviews (botEverywhere []))
   \<and> ''github-actions'' \<in> set (comments (botEverywhere []))
   \<and> ''github-actions'' \<in> issue_author ` set (closingIssuesReferences (botEverywhere []))
   \<and> ''github-actions'' \<in> set (concat (map issue_comments (closingIssuesReferences (botEverywhere []))))
   \<and> (\<forall>t. ''github-actions'' \<notin> set (contributors (snd (aggregate (botEverywhere []) initial)) t))"
proof -
  have h: "\<forall>c \<in> set (commits (botEverywhere [])). user c = None \<longrightarrow> author_email c \<noteq> ''github-actions''"
    by (simp add: botEverywhere_def example_defs)
  from C3_excluded_login_in_no_category [OF h] show ?thesis
    by (simp add: botEverywhere_def linkedCommitLogins_def example_defs)
qed

text \<open>The same data with one more commit, without a linked account and with the email
  \<open>github-actions\<close>: the pass completes and the key is a committer.\<close>

theorem C3_excluded_email_counterexample:
  "''github-actions'' \<in> set (linkedCommitLogins (botEverywhere [unlinkedCommit ''CI'' ''github-actions'']))
   \<and> ''github-actions'' \<in> set (reviews (botEverywhere [unlinkedCommit ''CI'' ''github-actions'']))
   \<and> ''github-actions'' \<in> set (comments (botEverywhere [unlinkedCommit ''CI'' ''github-actions'']))
   \<and> ''github-actions'' \<in> issue_author ` set (closingIssuesReferences (botEverywhere [unlinkedCommit ''CI'' ''github-actions'']))
   \<and> ''github-actions'' \<in> set (concat (map issue_comments (closingIssuesReferences (botEverywhere [unlinkedCommit ''CI'' ''github-actions'']))))
   \<and> fst (aggregate (botEverywhere [unlinkedCommit ''CI'' ''github-actions'']) initial) = None
   \<and> ''github-actions'' \<in> set (contributors (snd (aggregate (botEverywhere [unlinkedCommit ''CI'' ''github-actions'']) initial)) committers)"
  by (simp add: botEverywhere_def linkedCommitLogins_def aggregate_defs example_defs)

text \<open>
  Claim C4. In a run from the freshly loaded state in which aggregation and backfill
  complete, whose contributors after them are \<open>alice\<close> and \<open>bob\<close>, in whichever
  categories, each with a profile, and whose directory lookup answers \<open>alice\<close> with the
  slug \<open>alice-wp\<close> and \<open>bob\<close> with \<^verbatim>\<open>false\<close>: the rendering succeeds, its text is
  what the run returns, the text has exactly one trailer line for \<open>alice\<close>, namely
  \<^verbatim>\<open>Co-authored-by: alice <alice-wp@git.wordpress.org>\<close>, and no trailer line for \<open>bob\<close>,
  and the list of unconnected users is \<open>bob\<close> alone.
\<close>

theorem C4_directory_answer_rendered:
  assumes "fst (gathered sv initial) = None"
    and "set (githubUsers (snd (gathered sv initial))) = {''alice'', ''bob''}"
    and "userData (snd (gathered sv initial)) ''alice'' \<noteq> None"
    and "userData (snd (gathered sv initial)) ''bob'' \<noteq> None"
    and "getWPOrgData sv (githubUsers (snd (gathered sv initial))) ''alice'' = Some (Slug ''alice-wp'')"
    and "getWPOrgData sv (githubUsers (snd (gathered sv initial))) ''bob'' = Some NotLinked"
  shows "\<exists>text.
           render sv (mergeWPOrg (getWPOrgData sv (githubUsers (snd (gathered sv initial))))
                       (snd (gathered sv initial)))
             = Inr (text, [''bob''])
         \<and> returned (getContributorsList sv initial) = Inr (Some text)
         \<and> filter (isTrailerFor ''alice'') (splitLines text)
             = [''Co-authored-by: alice <alice-wp@git.wordpress.org>'']
         \<and> filter (isTrailerFor ''bob'') (splitLines text) = []"
proof -
  let ?s = "snd (gathered sv initial)"
  let ?w = "getWPOrgData sv (githubUsers ?s)"
  from assms(3) obtain pa where pa: "userData ?s ''alice'' = Some pa" by auto
  from assms(4) obtain pb where pb: "userData ?s ''bob'' = Some pb" by auto
  have n: "dotOrg pb = None" by (rule noDotOrg_lookup [OF noDotOrg_gathered pb])
  have "githubUsers ?s = [''alice'', ''bob''] \<or> githubUsers ?s = [''bob'', ''alice'']"
    by (rule two_members [OF distinct_githubUsers_gathered assms(2)]) simp
  then have two: "contributors ?s committers @ contributors ?s reviewers @ contributors ?s commenters
               @ contributors ?s reporters = [''alice'', ''bob'']
           \<or> contributors ?s committers @ contributors ?s reviewers @ contributors ?s commenters
               @ contributors ?s reporters = [''bob'', ''alice'']"
    by (simp add: githubUsers_def contributorTypes_def)
  have ne: "githubUsers ?s \<noteq> []" by (rule githubUsers_nonempty [OF assms(2)])
  have ret: "returned (getContributorsList sv initial) =
      (case render sv (mergeWPOrg ?w ?s) of Inl e \<Rightarrow> Inl e | Inr (t, unc) \<Rightarrow> Inr (Some t))"
  proof (cases rule: gathered_cases [of sv initial])
    case (thrown e)
    with assms(1) show ?thesis by simp
  next
    case completed
    show ?thesis unfolding completed(4) using ne by simp
  qed
  from render_alice_bob [where s = "?s" and w = "?w" and sv = sv,
      OF pa pb n assms(5,6) refl refl refl refl two]
  show ?thesis
  proof (elim exE conjE)
    fix out
    assume t: "render sv (mergeWPOrg ?w ?s) = Inr (out, [''bob''])"
      "filter (isTrailerFor ''alice'') (splitLines out)
         = [''Co-authored-by: alice <alice-wp@git.wordpress.org>'']"
      "filter (isTrailerFor ''bob'') (splitLines out) = []"
    have r: "returned (getContributorsList sv initial) = Inr (Some out)"
      unfolding ret t(1) by simp
    show ?thesis
      by (rule exI [of _ out]) (intro conjI t r)
  qed
qed

text \<open>The spec's scenario: a commit by \<open>alice\<close>, a review by \<open>bob\<close>, a comment by
  \<open>alice\<close>.\<close>

theorem C4_directory_answer_witness:
  "fst (gathered (exampleServices aliceBobData aliceBobTable) initial) = None
   \<and> githubUsers (snd (gathered (exampleServices aliceBobData aliceBobTable) initial))
        = [''alice'', ''bob'']
   \<and> getWPOrgData (exampleServices aliceBobData aliceBobTable) [''alice'', ''bob''] ''alice''
        = Some (Slug ''alice-wp'')
   \<and> getWPOrgData (exampleServices aliceBobData aliceBobTable) [''alice'', ''bob''] ''bob''
        = Some NotLinked
   \<and> (\<exists>text.
         render (exampleServices aliceBobData aliceBobTable)
           (mergeWPOrg (getWPOrgData (exampleServices aliceBobData aliceBobTable) [''alice'', ''bob''])
              (snd (gathered (exampleServices aliceBobData aliceBobTable) initial)))
           = Inr (text, [''bob''])
         \<and> returned (getContributorsList (exampleServices aliceBobData aliceBobTable) initial)
             = Inr (Some text)
         \<and> filter (isTrailerFor ''alice'') (splitLines text)
             = [''Co-authored-by: alice <alice-wp@git.wordpress.org>'']
         \<and> filter (isTrailerFor ''bob'') (splitLines text) = [])"
proof -
  let ?sv = "exampleServices aliceBobData aliceBobTable"
  have c: "fst (gathered ?sv initial) = None"
    by (simp add: pipeline_defs aliceBobData_def aggregate_defs example_defs)
  have g: "githubUsers (snd (gathered ?sv initial)) = [''alice'', ''bob'']"
    by (simp add: pipeline_defs aliceBobData_def aggregate_defs example_defs)
  have u: "userData (snd (gathered ?sv initial)) ''alice'' \<noteq> None"
    "userData (snd (gathered ?sv initial)) ''bob'' \<noteq> None"
    by (simp_all add: pipeline_defs aliceBobData_def aggregate_defs example_defs)
  have w: "getWPOrgData ?sv [''alice'', ''bob''] ''alice'' = Some (Slug ''alice-wp'')"
    "getWPOrgData ?sv [''alice'', ''bob''] ''bob'' = Some NotLinked"
    by (simp_all add: exampleServices_def answerDirectory_def aliceBobTable_def)
  have s: "set (githubUsers (snd (gathered ?sv initial))) = {''alice'', ''bob''}"
    by (simp add: g)
  note T = C4_directory_answer_rendered [where sv = "?sv", OF c s u w [folded g]]
  show ?thesis
    by (intro conjI c g w) (rule T [unfolded g])
qed

text \<open>
  Claim C5, at an input where it fails. The guard of the renderer reads \<^verbatim>\<open>length\<close> of a
  \<^verbatim>\<open>Set\<close>, which is \<^verbatim>\<open>undefined\<close> and never equal to 0, so no category is skipped:
  with \<open>alice\<close> the only contributor, a committer, the text still carries the headers of
  the three empty categories. (With no contributor at all the function returns
  \<^verbatim>\<open>undefined\<close> before rendering, see \<open>no_contributors_returns_undefined\<close>.)
\<close>

theorem C5_empty_category_header_emitted:
  "returned (getContributorsList (exampleServices commitOnlyData [(''alice'', Slug ''alice-wp'')]) initial) =
     Inr (Some ''# Committers\<newline>Co-authored-by: alice <alice-wp@git.wordpress.org>\<newline>\<newline># Reviewers\<newline>\<newline>\<newline># Commenters\<newline>\<newline>\<newline># Reporters\<newline>'')"
  by (simp add: pipeline_defs commitOnlyData_def aggregate_defs example_defs)

text \<open>
  Claim C6, at an input where it fails. The profile table is an Array used as a
  dictionary, and an assignment to \<^verbatim>\<open>userData['length']\<close> of an object throws a
  RangeError. With one review by the login \<open>length\<close>, the union to fetch is that login;
  the answer to the batched request carries its record; the backfill throws at
  \<^verbatim>\<open>userData[user.login] = user\<close>, the table holds nothing under the login, and the
  run ends with the exception. (For an answer without the logins \<open>length\<close> and
  \<open>__proto__\<close> the claim holds, see \<open>backfill_stores_returned_profiles\<close>.)
\<close>

theorem C6_backfill_throws_at_login_length:
  "usersToFetch (snd (aggregate lengthReviewData initial)) = [''length'']
   \<and> getUsersData (exampleServices lengthReviewData []) [''length''] = [mkUser 7 ''length'']
   \<and> login (mkUser 7 ''length'') = ''length''
   \<and> fst (fst (backfill (exampleServices lengthReviewData [])
                  (snd (aggregate lengthReviewData initial)))) = Some RangeError
   \<and> userData (snd (fst (backfill (exampleServices lengthReviewData [])
                           (snd (aggregate lengthReviewData initial))))) ''length'' = None
   \<and> returned (getContributorsList (exampleServices lengthReviewData []) initial)
        = Inl RangeError"
  by (simp add: pipeline_defs lengthReviewData_def aggregate_defs example_defs)

text \<open>
  Claim C7, as amended. The sanitizer puts an underscore in front and replaces every
  dot, slash and hyphen by an underscore; every other character is kept. On a string of
  letters, digits, dots, slashes, hyphens and underscores this is the spec's policy, and
  \<open>foo.bar-baz\<close> becomes \<open>_foo_bar_baz\<close>. The claim as stated, that every character
  outside letters and digits is replaced, fails on any other character.
\<close>

theorem C7_sanitizer_replaces_dot_slash_hyphen:
  "escapeForGql s =
     CHR ''_'' # map (\<lambda>c. if c = CHR ''.'' \<or> c = CHR ''/'' \<or> c = CHR ''-'' then CHR ''_'' else c) s
   \<and> (list_all (\<lambda>c. isLetterOrDigit c \<or> c = CHR ''.'' \<or> c = CHR ''/'' \<or> c = CHR ''-'' \<or> c = CHR ''_'') s
        \<longrightarrow> escapeForGql s = sanitizerPolicy s)
   \<and> escapeForGql ''foo.bar-baz'' = ''_foo_bar_baz''"
proof (intro conjI impI)
  show eq: "escapeForGql s =
     CHR ''_'' # map (\<lambda>c. if c = CHR ''.'' \<or> c = CHR ''/'' \<or> c = CHR ''-'' then CHR ''_'' else c) s"
    by (simp add: escapeForGql_def replaceAll_class)
  show "escapeForGql ''foo.bar-baz'' = ''_foo_bar_baz''"
    by (simp add: escapeForGql_def)
  assume "list_all (\<lambda>c. isLetterOrDigit c \<or> c = CHR ''.'' \<or> c = CHR ''/'' \<or> c = CHR ''-'' \<or> c = CHR ''_'') s"
  moreover have "\<not> isLetterOrDigit (CHR ''.'')" "\<not> isLetterOrDigit (CHR ''/'')"
    "\<not> isLetterOrDigit (CHR ''-'')" "\<not> isLetterOrDigit (CHR ''_'')"
    by (simp_all add: isLetterOrDigit_def)
  ultimately show "escapeForGql s = sanitizerPolicy s"
    unfolding eq sanitizerPolicy_def by (induction s) auto
qed

theorem C7_sanitizer_witness:
  "list_all (\<lambda>c. isLetterOrDigit c \<or> c = CHR ''.'' \<or> c = CHR ''/'' \<or> c = CHR ''-'' \<or> c = CHR ''_'') ''foo.bar-baz''
   \<and> escapeForGql ''foo.bar-baz'' = sanitizerPolicy ''foo.bar-baz''
   \<and> sanitizerPolicy ''foo.bar-baz'' = ''_foo_bar_baz''"
proof -
  have h: "list_all (\<lambda>c. isLetterOrDigit c \<or> c = CHR ''.'' \<or> c = CHR ''/'' \<or> c = CHR ''-'' \<or> c = CHR ''_'') ''foo.bar-baz''"
    by (simp add: isLetterOrDigit_def)
  from C7_sanitizer_replaces_dot_slash_hyphen [of "''foo.bar-baz''"] h
  show ?thesis by (simp add: sanitizerPolicy_def isLetterOrDigit_def)
qed

text \<open>Square brackets are kept by the code and replaced by the policy.\<close>

theorem C7_other_characters_kept_counterexample:
  "escapeForGql ''dependabot[bot]'' = ''_dependabot[bot]''
   \<and> sanitizerPolicy ''dependabot[bot]'' = ''_dependabot_bot_''"
  by (simp add: escapeForGql_def sanitizerPolicy_def isLetterOrDigit_def)

text \<open>
  Claim C8, as amended. When the union of reviewers, commenters and reporters is empty
  after aggregation, no batched profile request is issued; the run, when aggregation has
  completed, then goes on to the directory lookup, with the committers, when there is a
  committer, and with no contributor at all it returns \<^verbatim>\<open>undefined\<close> without a
  directory lookup. The claim as stated, that the run proceeds to the directory step,
  fails in this last case.
\<close>

theorem C8_empty_union_skips_batch_request:
  assumes "usersToFetch (snd (aggregate (getContributorData sv) s)) = []"
  shows "(\<forall>us. UsersDataQuery us \<notin> set (requests (getContributorsList sv s)))
       \<and> (fst (aggregate (getContributorData sv) s) = None \<longrightarrow>
           (if contributors (snd (aggregate (getContributorData sv) s)) committers = []
            then requests (getContributorsList sv s) = [ContributorDataQuery]
               \<and> returned (getContributorsList sv s) = Inr None
            else requests (getContributorsList sv s) =
                   [ContributorDataQuery,
                    WPOrgLookup (contributors (snd (aggregate (getContributorData sv) s)) committers)]))"
proof -
  obtain e1 s1 where a: "aggregate (getContributorData sv) s = (e1, s1)"
    by (cases "aggregate (getContributorData sv) s")
  with assms have u: "usersToFetch s1 = []" by simp
  show ?thesis
  proof (cases e1)
    case (Some e)
    with a show ?thesis by (simp add: getContributorsList_def)
  next
    case None
    with a u githubUsers_no_fetch [OF u] show ?thesis
      by (simp add: getContributorsList_def backfill_def Let_def)
  qed
qed

theorem C8_empty_union_witness:
  "usersToFetch (snd (aggregate (getContributorData (exampleServices commitOnlyData [])) initial)) = []
   \<and> fst (aggregate (getContributorData (exampleServices commitOnlyData [])) initial) = None
   \<and> (\<forall>us. UsersDataQuery us \<notin> set (requests (getContributorsList (exampleServices commitOnlyData []) initial)))
   \<and> requests (getContributorsList (exampleServices commitOnlyData []) initial) =
        [ContributorDataQuery, WPOrgLookup [''alice'']]"
proof -
  let ?sv = "exampleServices commitOnlyData []"
  have d: "getContributorData ?sv = commitOnlyData" by (simp add: exampleServices_def)
  have h: "usersToFetch (snd (aggregate (getContributorData ?sv) initial)) = []"
    by (simp add: d usersToFetch_def commitOnly_contributors)
  have c: "fst (aggregate (getContributorData ?sv) initial) = None"
    by (simp add: d commitOnly_contributors)
  from C8_empty_union_skips_batch_request [OF h] h c show ?thesis
    by (simp add: d commitOnly_contributors)
qed

text \<open>A pull request without any contribution: aggregation completes and the only
  request is the first query.\<close>

theorem C8_no_contributors_counterexample:
  "usersToFetch (snd (aggregate (getContributorData (exampleServices emptyData [])) initial)) = []
   \<and> fst (aggregate (getContributorData (exampleServices emptyData [])) initial) = None
   \<and> requests (getContributorsList (exampleServices emptyData []) initial) = [ContributorDataQuery]"
  by (simp add: getContributorsList_def backfill_def Let_def exampleServices_def emptyData_def
        usersToFetch_def githubUsers_def aggregate_defs)

text \<open>
  Claim C9, as amended. State persists across invocations in one process: the category
  sets and the profile table live at module level and are never reset, so the second of
  two runs starts from what the first left, and every member of every set and every key
  of the profile table of the first run is still there after the second, whether the
  runs return or throw. The claim as stated, that the second run starts empty and
  returns what a run on fresh state returns, fails.
\<close>

theorem C9_state_persists_across_runs:
  "set (contributors (final (getContributorsList sv1 s)) t)
     \<subseteq> set (contributors (final (getContributorsList sv2 (final (getContributorsList sv1 s)))) t)
   \<and> dom (userData (final (getContributorsList sv1 s)))
     \<subseteq> dom (userData (final (getContributorsList sv2 (final (getContributorsList sv1 s)))))"
  using keeps_getContributorsList [of "final (getContributorsList sv1 s)" sv2]
  by (simp add: keeps_def)

text \<open>A first run with a review by \<open>bob\<close>, then a run with a commit by \<open>bob\<close>: the
  second run credits \<open>bob\<close> as a reviewer, a run on fresh state as a committer.\<close>

theorem C9_second_run_counterexample:
  "contributors (final (getContributorsList (exampleServices reviewOnlyData [(''bob'', Slug ''bob-wp'')]) initial)) reviewers = [''bob'']
   \<and> returned (getContributorsList (exampleServices bobCommitData [(''bob'', Slug ''bob-wp'')])
        (final (getContributorsList (exampleServices reviewOnlyData [(''bob'', Slug ''bob-wp'')]) initial))) =
       Inr (Some ''# Committers\<newline>\<newline>\<newline># Reviewers\<newline>Co-authored-by: bob <bob-wp@git.wordpress.org>\<newline>\<newline># Commenters\<newline>\<newline>\<newline># Reporters\<newline>'')
   \<and> returned (getContributorsList (exampleServices bobCommitData [(''bob'', Slug ''bob-wp'')]) initial) =
       Inr (Some ''# Committers\<newline>Co-authored-by: bob <bob-wp@git.wordpress.org>\<newline>\<newline># Reviewers\<newline>\<newline>\<newline># Commenters\<newline>\<newline>\<newline># Reporters\<newline>'')"
  by (simp add: pipeline_defs reviewOnlyData_def bobCommitData_def aggregate_defs example_defs)

text \<open>
  Claim C10, at an input where it fails. The profile table is an Array used as a
  dictionary, and an assignment to \<^verbatim>\<open>userData['length']\<close> of an object throws a
  RangeError. With two commits without a linked account under the email \<open>length\<close>, the
  first commit adds the email to \<open>committers\<close> and throws at
  \<^verbatim>\<open>userData[commit.commit.author.email] = {...}\<close>: no profile is stored under the
  email, the second commit is never processed, and the run ends with the exception. (For
  every email other than \<open>length\<close> and \<open>__proto__\<close> the claim holds when the pass
  completes, see \<open>repeated_email_recorded_once\<close>; every commit without a linked
  account and with the email \<open>length\<close> makes the pass throw, see
  \<open>unlinked_length_throws\<close>.)
\<close>

theorem C10_email_length_throws:
  "2 \<le> length (unlinkedCommits lengthEmailData ''length'')
   \<and> fst (aggregate lengthEmailData initial) = Some RangeError
   \<and> contributors (snd (aggregate lengthEmailData initial)) committers = [''length'']
   \<and> userData (snd (aggregate lengthEmailData initial)) ''length'' = None
   \<and> returned (getContributorsList (exampleServices lengthEmailData []) initial)
        = Inl RangeError"
  by (simp add: pipeline_defs unlinkedCommits_def lengthEmailData_def aggregate_defs example_defs)

end
